theory Spec2Isabelle
  imports Main "HOL-Library.AList" "HOL-Library.Multiset" "HOL-Library.Char_ord"
    "HOL-Library.List_Lexorder" "HOL-Library.Product_Lexorder"
begin

section \<open>Python values, strings and dictionaries\<close>

text \<open>
  The values that occur in chunk metadata and in table cells. A float is carried with
  the text that \<^verbatim>\<open>repr\<close> prints for it; a value of any other type (a list, a dict,
  an object) is carried with what \<^verbatim>\<open>str()\<close> and \<^verbatim>\<open>bool()\<close> return for it.
\<close>

datatype pyval =
    PNone
  | PBool bool
  | PInt int
  | PFloat string
  | PStr string
  | PObj string bool

datatype error = TypeError | ValueError | KeyError | DocxError | Unmodelled

text \<open>Decimal rendering of Python's unbounded integers, as \<^verbatim>\<open>str(int)\<close> prints them.\<close>

definition digit_char :: "nat \<Rightarrow> char" where
  "digit_char d = ''0123456789'' ! d"

fun str_nat :: "nat \<Rightarrow> string" where
  "str_nat n = (if n < 10 then [digit_char n] else str_nat (n div 10) @ [digit_char (n mod 10)])"

declare str_nat.simps [simp del]

definition str_int :: "int \<Rightarrow> string" where
  "str_int i = (if i < 0 then CHR ''-'' # str_nat (nat (- i)) else str_nat (nat i))"

text \<open>\<^verbatim>\<open>str(v)\<close>, which is also what an f-string prints for \<^verbatim>\<open>{v}\<close>.\<close>

fun py_str :: "pyval \<Rightarrow> string" where
  "py_str PNone = ''None''"
| "py_str (PBool b) = (if b then ''True'' else ''False'')"
| "py_str (PInt i) = str_int i"
| "py_str (PFloat r) = r"
| "py_str (PStr s) = s"
| "py_str (PObj s t) = s"

text \<open>Truth value of a Python value, as \<^verbatim>\<open>if v\<close> tests it.\<close>

fun truthy :: "pyval \<Rightarrow> bool" where
  "truthy PNone = False"
| "truthy (PBool b) = b"
| "truthy (PInt i) = (i \<noteq> 0)"
| "truthy (PFloat r) = (r \<noteq> ''0.0'' \<and> r \<noteq> ''-0.0'')"
| "truthy (PStr s) = (s \<noteq> [])"
| "truthy (PObj s t) = t"

text \<open>
  A dict is an association list in insertion order; a lookup reads the first entry of a
  key, \<^verbatim>\<open>d[k] = v\<close> is \<^const>\<open>AList.update\<close> (the key keeps its place, a new key goes last).
\<close>

type_synonym meta = "(string \<times> pyval) list"

definition dict_get :: "meta \<Rightarrow> string \<Rightarrow> pyval \<Rightarrow> pyval" where
  "dict_get m k d = (case map_of m k of None \<Rightarrow> d | Some v \<Rightarrow> v)"

record document =
  page_content :: string
  metadata :: meta

section \<open>load\_data.py: calculate\_chunk\_ids\<close>

definition current_page_id :: "meta \<Rightarrow> string" where
  "current_page_id m =
     (let source = dict_get m ''source'' (PStr ''UNKNOWN_SOURCE'');
          page = dict_get m ''page'' (PInt 0);
          has_table = dict_get m ''has_table'' (PBool False);
          used_ocr = dict_get m ''used_ocr'' (PBool False);
          file_type = dict_get m ''file_type'' (PStr ''unknown'');
          table_suffix = (if truthy has_table then ''_table'' else '''');
          ocr_suffix = (if truthy used_ocr then ''_ocr'' else '''')
      in py_str source @ '':'' @ py_str file_type @ '':page_'' @ py_str page
           @ table_suffix @ ocr_suffix)"

text \<open>
  The loop of \<^verbatim>\<open>calculate_chunk_ids\<close>, with its two running variables
  \<^verbatim>\<open>last_page_id\<close> (\<^const>\<open>None\<close> before the first chunk) and \<^verbatim>\<open>current_chunk_index\<close>.
  The entries of the list are distinct objects.
\<close>

fun assign_ids :: "string option \<Rightarrow> int \<Rightarrow> document list \<Rightarrow> document list" where
  "assign_ids last_page_id current_chunk_index [] = []"
| "assign_ids last_page_id current_chunk_index (chunk # chunks) =
     (let page_id = current_page_id (metadata chunk);
          idx = (if Some page_id = last_page_id then current_chunk_index + 1 else 0);
          chunk_id = page_id @ '':chunk_'' @ str_int idx
      in chunk\<lparr>metadata := AList.update ''id'' (PStr chunk_id) (metadata chunk)\<rparr>
           # assign_ids (Some page_id) idx chunks)"

definition calculate_chunk_ids :: "document list \<Rightarrow> document list" where
  "calculate_chunk_ids chunks = assign_ids None 0 chunks"

definition doc_id :: "document \<Rightarrow> pyval option" where
  "doc_id c = map_of (metadata c) ''id''"


section \<open>load\_data.py: clean\_metadata\<close>

definition keep_keys :: "string list" where
  "keep_keys = [''source'', ''page'', ''type'', ''id'', ''total_pages'', ''has_table'',
                ''used_ocr'', ''file_type'']"

text \<open>\<^verbatim>\<open>isinstance(value, (str, int, float, bool, type(None)))\<close>\<close>

fun allowed_type :: "pyval \<Rightarrow> bool" where
  "allowed_type (PObj s t) = False"
| "allowed_type v = True"

fun clean_loop :: "meta \<Rightarrow> string list \<Rightarrow> meta \<Rightarrow> meta" where
  "clean_loop md [] cleaned = cleaned"
| "clean_loop md (key # keys) cleaned =
     clean_loop md keys
       (case map_of md key of
          None \<Rightarrow> cleaned
        | Some v \<Rightarrow>
            if allowed_type v then AList.update key v cleaned
            else if v \<noteq> PNone then AList.update key (PStr (py_str v)) cleaned
            else cleaned)"

definition clean_metadata :: "meta \<Rightarrow> meta" where
  "clean_metadata md = clean_loop md keep_keys []"

section \<open>docx\_loader.py: tables\<close>

text \<open>\<^verbatim>\<open>sep.join(parts)\<close>\<close>

fun str_join :: "string \<Rightarrow> string list \<Rightarrow> string" where
  "str_join sep [] = []"
| "str_join sep [x] = x"
| "str_join sep (x # y # ys) = x @ sep @ str_join sep (y # ys)"

text \<open>\<^verbatim>\<open>s.split(c)\<close> for a one-character separator: the lines of a string.\<close>

fun split_on :: "char \<Rightarrow> string \<Rightarrow> string list" where
  "split_on c [] = [[]]"
| "split_on c (x # xs) =
     (if x = c then [] # split_on c xs
      else (case split_on c xs of [] \<Rightarrow> [[x]] | l # ls \<Rightarrow> (x # l) # ls))"

text \<open>\<^verbatim>\<open>str(cell) if cell else ""\<close>\<close>

definition render_cell :: "pyval \<Rightarrow> string" where
  "render_cell cell = (if truthy cell then py_str cell else [])"

definition row_line :: "pyval list \<Rightarrow> string" where
  "row_line cells = ''| '' @ str_join '' | '' (map render_cell cells) @ '' |''"

text \<open>
  \<^verbatim>\<open>(row + [""] * (n - len(row)))[:n]\<close>; a negative count gives the empty list in Python,
  as the truncating subtraction of \<^typ>\<open>nat\<close> does here.
\<close>

definition pad_row :: "nat \<Rightarrow> pyval list \<Rightarrow> pyval list" where
  "pad_row n row = take n (row @ replicate (n - length row) (PStr []))"

definition separator_line :: "nat \<Rightarrow> string" where
  "separator_line n = ''| '' @ str_join '' | '' (replicate n ''---'') @ '' |''"

definition table_to_markdown :: "pyval list list \<Rightarrow> string" where
  "table_to_markdown table_data =
     (if table_data = [] \<or> length table_data < 2 then []
      else (let headers = hd table_data;
                markdown = [row_line headers, separator_line (length headers)]
                  @ map (\<lambda>row. row_line (pad_row (length headers) row)) (tl table_data)
            in str_join [CHR 0x0A] markdown))"

text \<open>
  \<^verbatim>\<open>s.strip()\<close>. Characters are bytes here, so the whitespace stripped is the ASCII
  whitespace of Python; the Unicode spaces beyond ASCII are left in place.
\<close>

definition is_space :: "char \<Rightarrow> bool" where
  "is_space c = (c \<in> set [CHR 0x20, CHR 0x09, CHR 0x0A, CHR 0x0B, CHR 0x0C, CHR 0x0D,
                            CHR 0x1C, CHR 0x1D, CHR 0x1E, CHR 0x1F])"

definition py_strip :: "string \<Rightarrow> string" where
  "py_strip s = rev (dropWhile is_space (rev (dropWhile is_space s)))"

text \<open>
  A table of the document library is the text of its cells, row by row, or an error
  when reading it raises. \<^verbatim>\<open>extract_docx_table\<close> catches every exception.
\<close>

definition extract_docx_table :: "error + string list list \<Rightarrow> string" where
  "extract_docx_table table =
     (case table of
        Inl e \<Rightarrow> []
      | Inr rows \<Rightarrow>
          (let table_data = map (\<lambda>row. map (\<lambda>cell. PStr (py_strip cell)) row) rows
           in if 2 \<le> length table_data then table_to_markdown table_data else []))"

section \<open>docx\_loader.py: extract\_content\_from\_docx\<close>

text \<open>
  The body of a document, as the library hands it over: paragraphs, tables and other
  elements, in document order. Reading the text of a paragraph may raise.
\<close>

datatype element = CT_P "error + string" | CT_Tbl "error + string list list" | CT_Other

record content_part =
  ptype :: string
  content :: string
  part_section :: int

record extractor =
  content_parts :: "content_part list"
  current_section :: "string list"
  section_num :: int
  table_count :: int

text \<open>The block under \<^verbatim>\<open># Save accumulated text before table\<close>.\<close>

definition save_accumulated :: "extractor \<Rightarrow> extractor" where
  "save_accumulated st =
     (if current_section st \<noteq> [] then
        (let section_text = str_join [CHR 0x0A, CHR 0x0A] (current_section st);
             st1 = (if section_text \<noteq> [] then
                      st\<lparr>content_parts := content_parts st
                            @ [\<lparr>ptype = ''text'', content = section_text, part_section = section_num st\<rparr>],
                          section_num := section_num st + 1\<rparr>
                    else st)
         in st1\<lparr>current_section := []\<rparr>)
      else st)"

text \<open>The table heading is \<^verbatim>\<open>Bang\<close> with its Vietnamese vowel, three bytes in UTF-8.\<close>

definition table_heading :: "int \<Rightarrow> string" where
  "table_heading n =
     [CHR 0x0A] @ ''**B'' @ [CHR 0xE1, CHR 0xBA, CHR 0xA3] @ ''ng '' @ str_int n @ '':**'' @ [CHR 0x0A]"

fun body_step :: "element \<Rightarrow> extractor \<Rightarrow> error + extractor" where
  "body_step (CT_P p) st =
     (case p of
        Inl e \<Rightarrow> Inl e
      | Inr t \<Rightarrow>
          (let text = py_strip t
           in Inr (if text \<noteq> [] then st\<lparr>current_section := current_section st @ [text]\<rparr> else st)))"
| "body_step (CT_Tbl table) st =
     (let st1 = save_accumulated st;
          markdown_table = extract_docx_table table
      in Inr (if markdown_table \<noteq> [] then
                st1\<lparr>table_count := table_count st1 + 1,
                    content_parts := content_parts st1
                      @ [\<lparr>ptype = ''table'',
                          content = table_heading (table_count st1 + 1) @ markdown_table @ [CHR 0x0A],
                          part_section = section_num st1\<rparr>],
                    section_num := section_num st1 + 1\<rparr>
              else st1))"
| "body_step CT_Other st = Inr st"

fun body_loop :: "element list \<Rightarrow> extractor \<Rightarrow> error + extractor" where
  "body_loop [] st = Inr st"
| "body_loop (e # es) st =
     (case body_step e st of Inl x \<Rightarrow> Inl x | Inr st1 \<Rightarrow> body_loop es st1)"

text \<open>The block under \<^verbatim>\<open># Add remaining text\<close>.\<close>

definition add_remaining :: "extractor \<Rightarrow> content_part list" where
  "add_remaining st =
     (if current_section st \<noteq> [] then
        (let section_text = str_join [CHR 0x0A, CHR 0x0A] (current_section st)
         in if section_text \<noteq> [] then
              content_parts st
                @ [\<lparr>ptype = ''text'', content = section_text, part_section = section_num st\<rparr>]
            else content_parts st)
      else content_parts st)"

definition make_document :: "string \<Rightarrow> int \<Rightarrow> nat \<Rightarrow> content_part \<Rightarrow> document" where
  "make_document filename total_sections i part =
     (let has_table = (ptype part = ''table'')
      in \<lparr>page_content = content part,
          metadata = [(''source'', PStr filename),
                      (''page'', PInt (int i)),
                      (''total_pages'', PInt total_sections),
                      (''type'', PStr (if has_table then ''docx_table'' else ''docx_text'')),
                      (''has_table'', PBool has_table),
                      (''file_type'', PStr ''docx'')]\<rparr>)"

text \<open>\<^verbatim>\<open>os.path.basename\<close> and \<^verbatim>\<open>os.path.join\<close> on POSIX paths.\<close>

definition basename :: "string \<Rightarrow> string" where
  "basename p = rev (takeWhile (\<lambda>c. c \<noteq> CHR ''/'') (rev p))"

definition path_join :: "string \<Rightarrow> string \<Rightarrow> string" where
  "path_join a b =
     (if b \<noteq> [] \<and> hd b = CHR ''/'' then b
      else if a = [] \<or> last a = CHR ''/'' then a @ b
      else a @ ''/'' @ b)"

text \<open>
  \<^verbatim>\<open>DocxDocument(file_path)\<close> is the parameter \<open>docx_open\<close>: the body of the file, or the
  error the library raises on a file it cannot parse.
\<close>

definition extract_content_from_docx ::
  "(string \<Rightarrow> error + element list) \<Rightarrow> string \<Rightarrow> document list" where
  "extract_content_from_docx docx_open file_path =
     (let filename = basename file_path
      in case docx_open file_path of
           Inl e \<Rightarrow> []
         | Inr body \<Rightarrow>
             (case body_loop body
                     \<lparr>content_parts = [], current_section = [], section_num = 0, table_count = 0\<rparr> of
                Inl e \<Rightarrow> []
              | Inr st \<Rightarrow>
                  (let parts = add_remaining st;
                       total_sections = int (length parts)
                   in map (\<lambda>(i, part). make_document filename total_sections i part)
                        (zip [0..<length parts] parts))))"

section \<open>load\_data.py: load\_document\<close>

definition ascii_lower :: "char \<Rightarrow> char" where
  "ascii_lower c =
     (if CHR ''A'' \<le> c \<and> c \<le> CHR ''Z'' then char_of (of_char c + (32::nat)) else c)"

definition ends_with :: "string \<Rightarrow> string \<Rightarrow> bool" where
  "ends_with s suf = (length suf \<le> length s \<and> drop (length s - length suf) s = suf)"

definition starts_with :: "string \<Rightarrow> string \<Rightarrow> bool" where
  "starts_with s pre = (take (length pre) s = pre)"

definition is_docx_file :: "string \<Rightarrow> bool" where
  "is_docx_file f = (ends_with (map ascii_lower f) ''.docx'' \<and> \<not> starts_with f ''~$'')"

fun load_loop ::
  "(string \<Rightarrow> error + element list) \<Rightarrow> string \<Rightarrow> string list \<Rightarrow> document list \<Rightarrow> document list" where
  "load_loop docx_open data_path [] documents = documents"
| "load_loop docx_open data_path (filename # files) documents =
     (let file_path = path_join data_path filename;
          docs = extract_content_from_docx docx_open file_path
      in if docs = [] then load_loop docx_open data_path files documents
         else load_loop docx_open data_path files (documents @ docs))"

text \<open>
  The directory is \<^const>\<open>None\<close> when \<^verbatim>\<open>data_path\<close> does not exist, and else the
  names \<^verbatim>\<open>os.listdir\<close> returns.
\<close>

definition load_document ::
  "(string \<Rightarrow> error + element list) \<Rightarrow> string \<Rightarrow> string list option \<Rightarrow> document list" where
  "load_document docx_open data_path listing =
     (case listing of
        None \<Rightarrow> []
      | Some names \<Rightarrow>
          (let docx_files = filter is_docx_file names
           in if docx_files = [] then [] else load_loop docx_open data_path docx_files []))"

section \<open>load\_data.py: save\_to\_chroma\<close>

text \<open>
  \<^verbatim>\<open>filter_complex_metadata\<close> of the vector-store library keeps the entries whose value
  is a str, bool, int or float.
\<close>

fun simple_type :: "pyval \<Rightarrow> bool" where
  "simple_type (PStr s) = True"
| "simple_type (PBool b) = True"
| "simple_type (PInt i) = True"
| "simple_type (PFloat r) = True"
| "simple_type v = False"

definition filter_complex_metadata :: "document list \<Rightarrow> document list" where
  "filter_complex_metadata chunks =
     map (\<lambda>d. d\<lparr>metadata := filter (\<lambda>kv. simple_type (snd kv)) (metadata d)\<rparr>) chunks"

text \<open>
  \<^verbatim>\<open>int(v)\<close>. Parsing a string and truncating a float are outside this development:
  the embedding stops with \<^const>\<open>Unmodelled\<close> there.
\<close>

fun py_int :: "pyval \<Rightarrow> error + int" where
  "py_int (PInt i) = Inr i"
| "py_int (PBool b) = Inr (if b then 1 else 0)"
| "py_int PNone = Inl TypeError"
| "py_int (PObj s t) = Inl TypeError"
| "py_int (PStr s) = Inl Unmodelled"
| "py_int (PFloat r) = Inl Unmodelled"

text \<open>The key of the \<^verbatim>\<open>sorted\<close> call, its components evaluated left to right.\<close>

definition chunk_sort_key :: "document \<Rightarrow> error + (pyval \<times> int \<times> bool \<times> int)" where
  "chunk_sort_key c =
     (let m = metadata c
      in case py_int (dict_get m ''page'' (PInt 0)) of
           Inl e \<Rightarrow> Inl e
         | Inr page \<Rightarrow>
             (case (if dict_get m ''start'' PNone \<noteq> PNone
                    then py_int (dict_get m ''start'' (PInt 0)) else Inr 0) of
                Inl e \<Rightarrow> Inl e
              | Inr start \<Rightarrow>
                  Inr (dict_get m ''source'' PNone, page,
                       truthy (dict_get m ''has_table'' (PBool False)), start)))"

text \<open>
  Python compares two sources of the same kind (two strings, two numbers, \<^verbatim>\<open>None\<close> with
  \<^verbatim>\<open>None\<close>) and raises \<^verbatim>\<open>TypeError\<close> on two of different kinds. Within one kind,
  \<open>source_rank\<close> orders sources as Python does. Float sources are outside this development.
\<close>

datatype source_kind = NoneKind | StrKind | NumKind

fun kind_of_source :: "pyval \<Rightarrow> source_kind option" where
  "kind_of_source PNone = Some NoneKind"
| "kind_of_source (PStr s) = Some StrKind"
| "kind_of_source (PInt i) = Some NumKind"
| "kind_of_source (PBool b) = Some NumKind"
| "kind_of_source v = None"

fun source_rank :: "pyval \<Rightarrow> int \<times> string" where
  "source_rank (PStr s) = (0, s)"
| "source_rank (PInt i) = (i, [])"
| "source_rank (PBool b) = (if b then 1 else 0, [])"
| "source_rank v = (0, [])"

definition chunk_rank :: "document \<Rightarrow> (int \<times> string) \<times> int \<times> bool \<times> int" where
  "chunk_rank c =
     (case chunk_sort_key c of
        Inr (src, page, tab, start) \<Rightarrow> (source_rank src, page, tab, start)
      | Inl e \<Rightarrow> ((0, []), 0, False, 0))"

fun first_error :: "(error + 'a) list \<Rightarrow> error option" where
  "first_error [] = None"
| "first_error (Inl e # rs) = Some e"
| "first_error (Inr v # rs) = first_error rs"

definition chunk_source :: "document \<Rightarrow> pyval" where
  "chunk_source c = dict_get (metadata c) ''source'' PNone"

text \<open>
  \<^verbatim>\<open>sorted(chunks, key=...)\<close>: the keys are computed first, in list order; the sort is
  stable, as \<^const>\<open>sort_key\<close> is.
\<close>

definition py_sorted :: "document list \<Rightarrow> error + document list" where
  "py_sorted chunks =
     (case first_error (map chunk_sort_key chunks) of
        Some e \<Rightarrow> Inl e
      | None \<Rightarrow>
          if \<not> list_all (\<lambda>c. kind_of_source (chunk_source c) \<noteq> None) chunks then Inl Unmodelled
          else if \<not> list_all (\<lambda>c. list_all (\<lambda>d. kind_of_source (chunk_source c)
                                                  = kind_of_source (chunk_source d)) chunks) chunks
          then Inl TypeError
          else Inr (sort_key chunk_rank chunks))"

text \<open>The part of \<^verbatim>\<open>save_to_chroma\<close> before the store is touched.\<close>

definition prepare_chunks :: "document list \<Rightarrow> error + document list" where
  "prepare_chunks chunks =
     (let chunks1 = filter_complex_metadata chunks;
          chunks2 = map (\<lambda>c. c\<lparr>metadata := clean_metadata (metadata c)\<rparr>) chunks1
      in case py_sorted chunks2 of
           Inl e \<Rightarrow> Inl e
         | Inr chunks_sorted \<Rightarrow> Inr (calculate_chunk_ids chunks_sorted))"

text \<open>
  Modelled from the spec: the vector index, an external collaborator of the repository.
  It is a mapping from chunk ID to chunk with the capability the spec names: upsert by ID
  and the enumeration of the current IDs. It is \<^const>\<open>None\<close> while nothing exists at the
  store location.
\<close>

type_synonym index = "(pyval \<times> document) list"

definition add_documents :: "index \<Rightarrow> document list \<Rightarrow> pyval list \<Rightarrow> index" where
  "add_documents db docs ids = fold (\<lambda>p acc. AList.update (fst p) (snd p) acc) (zip ids docs) db"

definition existing_ids :: "index \<Rightarrow> pyval set" where
  "existing_ids db = set (map fst db)"

text \<open>\<^verbatim>\<open>[chunk.metadata["id"] for chunk in chunks]\<close>\<close>

fun chunk_ids :: "document list \<Rightarrow> error + pyval list" where
  "chunk_ids [] = Inr []"
| "chunk_ids (chunk # chunks) =
     (case map_of (metadata chunk) ''id'' of
        None \<Rightarrow> Inl KeyError
      | Some i \<Rightarrow> (case chunk_ids chunks of Inl e \<Rightarrow> Inl e | Inr ids \<Rightarrow> Inr (i # ids)))"

text \<open>\<^verbatim>\<open>[chunk for chunk in chunks if chunk.metadata["id"] not in existing]\<close>\<close>

fun select_new :: "pyval set \<Rightarrow> document list \<Rightarrow> error + document list" where
  "select_new existing [] = Inr []"
| "select_new existing (chunk # chunks) =
     (case map_of (metadata chunk) ''id'' of
        None \<Rightarrow> Inl KeyError
      | Some i \<Rightarrow>
          (case select_new existing chunks of
             Inl e \<Rightarrow> Inl e
           | Inr new \<Rightarrow> Inr (if i \<notin> existing then chunk # new else new)))"

text \<open>
  The result is the store after the run together with the chunks handed to the one
  insert call of the run, \<^const>\<open>None\<close> when no insert call is made.
\<close>

definition save_to_chroma ::
  "index option \<Rightarrow> document list \<Rightarrow> error + (index option \<times> document list option)" where
  "save_to_chroma store chunks =
     (case prepare_chunks chunks of
        Inl e \<Rightarrow> Inl e
      | Inr chunks_with_ids \<Rightarrow>
          (case store of
             Some db \<Rightarrow>
               (case select_new (existing_ids db) chunks_with_ids of
                  Inl e \<Rightarrow> Inl e
                | Inr new_chunks \<Rightarrow>
                    if new_chunks \<noteq> [] then
                      (case chunk_ids new_chunks of
                         Inl e \<Rightarrow> Inl e
                       | Inr new_chunk_ids \<Rightarrow>
                           (let cleaned = map (\<lambda>c. c\<lparr>metadata := clean_metadata (metadata c)\<rparr>) new_chunks
                            in Inr (Some (add_documents db cleaned new_chunk_ids), Some cleaned)))
                    else Inr (Some db, None))
           | None \<Rightarrow>
               (case chunk_ids chunks_with_ids of
                  Inl e \<Rightarrow> Inl e
                | Inr new_chunk_ids \<Rightarrow>
                    Inr (Some (add_documents [] chunks_with_ids new_chunk_ids),
                         Some chunks_with_ids))))"

section \<open>Notions the properties are stated with\<close>

text \<open>The values of \<^verbatim>\<open>current_chunk_index\<close> that the loop of \<^verbatim>\<open>calculate_chunk_ids\<close> goes through.\<close>

fun chunk_indices :: "string option \<Rightarrow> int \<Rightarrow> document list \<Rightarrow> int list" where
  "chunk_indices last_page_id current_chunk_index [] = []"
| "chunk_indices last_page_id current_chunk_index (chunk # chunks) =
     (let page_id = current_page_id (metadata chunk);
          idx = (if Some page_id = last_page_id then current_chunk_index + 1 else 0)
      in idx # chunk_indices (Some page_id) idx chunks)"

text \<open>The composite key, read as \<^verbatim>\<open>calculate_chunk_ids\<close> reads its five fields.\<close>

definition composite_key :: "document \<Rightarrow> pyval \<times> pyval \<times> pyval \<times> pyval \<times> pyval" where
  "composite_key c =
     (let m = metadata c
      in (dict_get m ''source'' (PStr ''UNKNOWN_SOURCE''),
          dict_get m ''file_type'' (PStr ''unknown''),
          dict_get m ''page'' (PInt 0),
          dict_get m ''has_table'' (PBool False),
          dict_get m ''used_ocr'' (PBool False)))"

fun colon_free :: "pyval \<Rightarrow> bool" where
  "colon_free (PStr s) = (CHR '':'' \<notin> set s)"
| "colon_free v = False"

fun is_str :: "pyval \<Rightarrow> bool" where
  "is_str (PStr s) = True"
| "is_str v = False"

fun is_int :: "pyval \<Rightarrow> bool" where
  "is_int (PInt i) = True"
| "is_int v = False"

fun is_bool :: "pyval \<Rightarrow> bool" where
  "is_bool (PBool b) = True"
| "is_bool v = False"

text \<open>
  Metadata as the extractor writes it: the source is a string, the file type a string
  without a colon, the page an integer and the two flags booleans.
\<close>

definition plain_fields :: "document \<Rightarrow> bool" where
  "plain_fields c =
     (case composite_key c of
        (source, file_type, page, has_table, used_ocr) \<Rightarrow>
          is_str source \<and> colon_free file_type \<and> is_int page \<and> is_bool has_table
          \<and> is_bool used_ocr)"

text \<open>
  The sort key of the ID assigner's contract, \<open>(source, page, has_table, start_offset)\<close>,
  an absent value read as the zero of its type. The start offset is the metadata entry
  \<^verbatim>\<open>start\<close>, the one \<^verbatim>\<open>save_to_chroma\<close> sorts by.
\<close>

fun str_field :: "pyval \<Rightarrow> string" where
  "str_field (PStr s) = s"
| "str_field v = []"

fun int_field :: "pyval \<Rightarrow> int" where
  "int_field (PInt i) = i"
| "int_field v = 0"

definition contract_key :: "document \<Rightarrow> string \<times> int \<times> bool \<times> int" where
  "contract_key c =
     (let m = metadata c
      in (str_field (dict_get m ''source'' (PStr [])),
          int_field (dict_get m ''page'' (PInt 0)),
          truthy (dict_get m ''has_table'' (PBool False)),
          int_field (dict_get m ''start'' (PInt 0))))"

definition identity_tuple :: "document \<Rightarrow> string \<times> int \<times> bool \<times> bool \<times> int" where
  "identity_tuple c =
     (let m = metadata c
      in (str_field (dict_get m ''source'' (PStr [])),
          int_field (dict_get m ''page'' (PInt 0)),
          truthy (dict_get m ''has_table'' (PBool False)),
          truthy (dict_get m ''used_ocr'' (PBool False)),
          int_field (dict_get m ''start'' (PInt 0))))"

definition has_source :: "document \<Rightarrow> bool" where
  "has_source c = (map_of (metadata c) ''source'' \<noteq> None)"

text \<open>Two chunks of one section: they agree on source, page and table flag.\<close>

definition same_section :: "document \<Rightarrow> document \<Rightarrow> bool" where
  "same_section c d = (fst (contract_key c) = fst (contract_key d)
     \<and> fst (snd (contract_key c)) = fst (snd (contract_key d))
     \<and> fst (snd (snd (contract_key c))) = fst (snd (snd (contract_key d))))"

definition same_kind :: "document \<Rightarrow> document \<Rightarrow> bool" where
  "same_kind c d =
     (dict_get (metadata c) ''file_type'' (PStr ''unknown'') = dict_get (metadata d) ''file_type'' (PStr ''unknown'')
      \<and> dict_get (metadata c) ''used_ocr'' (PBool False) = dict_get (metadata d) ''used_ocr'' (PBool False))"

text \<open>Every value of the list occupies one unbroken run of positions.\<close>

fun grouped :: "'a list \<Rightarrow> bool" where
  "grouped [] = True"
| "grouped (p # ps) = ((p \<in> set ps \<longrightarrow> p = hd ps) \<and> grouped ps)"

text \<open>A cell with every falsy value replaced by the empty string.\<close>

definition blank_falsy :: "pyval \<Rightarrow> pyval" where
  "blank_falsy cell = (if truthy cell then cell else PStr [])"

text \<open>A directory of the examples: a sound file, a file whose body raises, and files that cannot be opened.\<close>

definition example_open :: "string \<Rightarrow> error + element list" where
  "example_open p =
     (if p = ''/kb/good.docx'' then Inr [CT_P (Inr ''text'')]
      else if p = ''/kb/torn.docx'' then Inr [CT_P (Inr ''text''), CT_P (Inl DocxError)]
      else Inl DocxError)"

text \<open>The two optional suffixes of a page identity string.\<close>

definition flag_suffixes :: "bool \<Rightarrow> bool \<Rightarrow> string" where
  "flag_suffixes t ocr = (if t then ''_table'' else []) @ (if ocr then ''_ocr'' else [])"

text \<open>Helpers of the proofs: the value of a decimal numeral.\<close>

definition digit_val :: "char \<Rightarrow> nat" where
  "digit_val c = of_char c - 48"

definition dec_val :: "string \<Rightarrow> nat" where
  "dec_val s = foldl (\<lambda>a c. 10 * a + digit_val c) 0 s"

section \<open>Decimal numerals and separators\<close>

lemma digit_char_in: "d < 10 \<Longrightarrow> digit_char d \<in> set ''0123456789''"
  unfolding digit_char_def by (rule nth_mem) simp

lemma digit_val_char: "d < 10 \<Longrightarrow> digit_val (digit_char d) = d"
proof -
  assume "d < 10"
  then have "d \<in> {0,1,2,3,4,5,6,7,8,9}" by auto
  then show ?thesis
    by (auto simp: digit_val_def digit_char_def)
qed

lemma str_nat_set: "set (str_nat n) \<subseteq> set ''0123456789''"
proof (induction n rule: str_nat.induct)
  case (1 n)
  show ?case
  proof (cases "n < 10")
    case True
    then show ?thesis using digit_char_in [of n] by (subst str_nat.simps) simp
  next
    case False
    have "n mod 10 < 10" by simp
    from digit_char_in [OF this] 1 [OF False] False show ?thesis
      by (subst str_nat.simps) simp
  qed
qed

lemma dec_val_str_nat: "dec_val (str_nat n) = n"
proof (induction n rule: str_nat.induct)
  case (1 n)
  show ?case
  proof (cases "n < 10")
    case True
    then show ?thesis
      by (subst str_nat.simps) (simp add: dec_val_def digit_val_char)
  next
    case False
    have m: "n mod 10 < 10" by simp
    from 1 [OF False] False show ?thesis
      by (subst str_nat.simps) (simp add: dec_val_def digit_val_char [OF m])
  qed
qed

lemma str_nat_inj: "str_nat a = str_nat b \<Longrightarrow> a = b"
  by (metis dec_val_str_nat)

lemma str_nat_nonempty: "str_nat n \<noteq> []"
  by (subst str_nat.simps) simp

lemma str_nat_hd: "hd (str_nat n) \<noteq> CHR ''-''"
proof -
  have "hd (str_nat n) \<in> set (str_nat n)" using str_nat_nonempty by simp
  then have "hd (str_nat n) \<in> set ''0123456789''" using str_nat_set by blast
  then show ?thesis by auto
qed

lemma str_int_inj: "str_int a = str_int b \<Longrightarrow> a = b"
proof -
  assume e: "str_int a = str_int b"
  have neg: "str_nat n \<noteq> CHR ''-'' # s" for n s
  proof
    assume "str_nat n = CHR ''-'' # s"
    then have "hd (str_nat n) = CHR ''-''" by simp
    with str_nat_hd [of n] show False by simp
  qed
  have neg': "CHR ''-'' # s \<noteq> str_nat n" for n s
    using neg [of n s] by (rule not_sym)
  show ?thesis
  proof (cases "a < 0")
    case True
    then have b: "b < 0" using e neg neg' by (simp add: str_int_def split: if_splits)
    with True e have "str_nat (nat (- a)) = str_nat (nat (- b))" by (simp add: str_int_def)
    then have "nat (- a) = nat (- b)" by (rule str_nat_inj)
    with True b show ?thesis by simp
  next
    case False
    then have b: "\<not> b < 0" using e neg neg' by (simp add: str_int_def split: if_splits)
    with False e have "str_nat (nat a) = str_nat (nat b)" by (simp add: str_int_def)
    then have "nat a = nat b" by (rule str_nat_inj)
    with False b show ?thesis by simp
  qed
qed

lemma str_nat_avoids: "c \<notin> set ''0123456789'' \<Longrightarrow> c \<notin> set (str_nat n)"
  using str_nat_set [of n] by (rule contra_subsetD)

lemma str_int_no_colon: "CHR '':'' \<notin> set (str_int i)"
proof -
  have "CHR '':'' \<notin> set (str_nat n)" for n by (rule str_nat_avoids) simp
  then show ?thesis by (simp add: str_int_def)
qed

lemma str_int_no_underscore: "CHR ''_'' \<notin> set (str_int i)"
proof -
  have "CHR ''_'' \<notin> set (str_nat n)" for n by (rule str_nat_avoids) simp
  then show ?thesis by (simp add: str_int_def)
qed

lemma takeWhile_until: "c \<notin> set zs \<Longrightarrow> takeWhile (\<lambda>x. x \<noteq> c) (zs @ c # ws) = zs"
  by (induction zs) auto

lemma split_first:
  assumes e: "xs @ c # ys = xs' @ c # ys'" and n: "c \<notin> set xs" "c \<notin> set xs'"
  shows "xs = xs' \<and> ys = ys'"
proof -
  have "takeWhile (\<lambda>x. x \<noteq> c) (xs @ c # ys) = takeWhile (\<lambda>x. x \<noteq> c) (xs' @ c # ys')"
    using e by (rule arg_cong)
  then have x: "xs = xs'"
    unfolding takeWhile_until [OF n(1)] takeWhile_until [OF n(2)] .
  from e have "ys = ys'" unfolding x by (rule conjunct2 [OF iffD1 [OF list.inject, OF iffD1 [OF same_append_eq]]])
  with x show ?thesis by (rule conjI)
qed

lemma split_last:
  assumes e: "xs @ c # ys = xs' @ c # ys'" and n: "c \<notin> set ys" "c \<notin> set ys'"
  shows "xs = xs' \<and> ys = ys'"
proof -
  from e have "rev (xs @ c # ys) = rev (xs' @ c # ys')" by (rule arg_cong)
  then have r: "rev ys @ c # rev xs = rev ys' @ c # rev xs'" by (simp only: rev_append rev.simps append_assoc append_Cons append_Nil)
  have "c \<notin> set (rev ys)" "c \<notin> set (rev ys')" using n by simp_all
  from split_first [OF r this] have "rev ys = rev ys'" "rev xs = rev xs'" by blast+
  then show ?thesis by (simp only: rev_is_rev_conv)
qed

lemma chunk_id_inj:
  assumes "p @ '':chunk_'' @ str_int a = q @ '':chunk_'' @ str_int b"
  shows "p = q \<and> a = b"
proof -
  have na: "CHR '':'' \<notin> set (''chunk_'' @ str_int a)" and nb: "CHR '':'' \<notin> set (''chunk_'' @ str_int b)"
    by (simp_all add: str_int_no_colon)
  from assms have "p @ CHR '':'' # (''chunk_'' @ str_int a) = q @ CHR '':'' # (''chunk_'' @ str_int b)"
    by simp
  from split_last [OF this na nb] have "p = q" "str_int a = str_int b" by simp_all
  then show ?thesis by (simp add: str_int_inj)
qed

section \<open>The worked example of the ID assigner\<close>

text \<open>
  C3, as stated: three pre-sorted chunks whose metadata is exactly source, page and
  has\_table get the IDs \<^verbatim>\<open>a.docx:docx:page_0:chunk_0\<close>, \<^verbatim>\<open>a.docx:docx:page_0:chunk_1\<close>
  and \<^verbatim>\<open>a.docx:docx:page_1_table:chunk_0\<close>. They do not: with no \<^verbatim>\<open>file_type\<close> entry
  the assigner writes its default \<^verbatim>\<open>unknown\<close> into the ID.
\<close>

theorem example_ids_counterexample:
  "map doc_id (calculate_chunk_ids
     [\<lparr>page_content = ''first'', metadata = [(''source'', PStr ''a.docx''), (''page'', PInt 0), (''has_table'', PBool False)]\<rparr>,
      \<lparr>page_content = ''second'', metadata = [(''source'', PStr ''a.docx''), (''page'', PInt 0), (''has_table'', PBool False)]\<rparr>,
      \<lparr>page_content = ''third'', metadata = [(''source'', PStr ''a.docx''), (''page'', PInt 1), (''has_table'', PBool True)]\<rparr>])
   \<noteq> [Some (PStr ''a.docx:docx:page_0:chunk_0''), Some (PStr ''a.docx:docx:page_0:chunk_1''),
       Some (PStr ''a.docx:docx:page_1_table:chunk_0'')]"
  by code_simp

text \<open>
  C3, amended: when the three chunks also carry \<^verbatim>\<open>file_type\<close> \<^verbatim>\<open>docx\<close> they get the
  IDs of the example, in that order; with exactly the metadata of the example they get
  the same IDs with \<^verbatim>\<open>unknown\<close> in place of \<^verbatim>\<open>docx\<close>. The text of the chunks plays no part.
\<close>

theorem example_ids:
  "map doc_id (calculate_chunk_ids
     [\<lparr>page_content = t1, metadata = [(''source'', PStr ''a.docx''), (''page'', PInt 0), (''has_table'', PBool False), (''file_type'', PStr ''docx'')]\<rparr>,
      \<lparr>page_content = t2, metadata = [(''source'', PStr ''a.docx''), (''page'', PInt 0), (''has_table'', PBool False), (''file_type'', PStr ''docx'')]\<rparr>,
      \<lparr>page_content = t3, metadata = [(''source'', PStr ''a.docx''), (''page'', PInt 1), (''has_table'', PBool True), (''file_type'', PStr ''docx'')]\<rparr>])
   = [Some (PStr ''a.docx:docx:page_0:chunk_0''), Some (PStr ''a.docx:docx:page_0:chunk_1''),
      Some (PStr ''a.docx:docx:page_1_table:chunk_0'')]
   \<and> map doc_id (calculate_chunk_ids
     [\<lparr>page_content = t1, metadata = [(''source'', PStr ''a.docx''), (''page'', PInt 0), (''has_table'', PBool False)]\<rparr>,
      \<lparr>page_content = t2, metadata = [(''source'', PStr ''a.docx''), (''page'', PInt 0), (''has_table'', PBool False)]\<rparr>,
      \<lparr>page_content = t3, metadata = [(''source'', PStr ''a.docx''), (''page'', PInt 1), (''has_table'', PBool True)]\<rparr>])
   = [Some (PStr ''a.docx:unknown:page_0:chunk_0''), Some (PStr ''a.docx:unknown:page_0:chunk_1''),
      Some (PStr ''a.docx:unknown:page_1_table:chunk_0'')]"
  by code_simp

section \<open>The metadata normalizer\<close>

lemma clean_loop_keys: "fst ` set (clean_loop md keys cleaned) \<subseteq> set keys \<union> fst ` set cleaned"
proof (induction keys arbitrary: cleaned)
  case Nil
  show ?case by simp
next
  case (Cons key keys)
  show ?case
    using Cons.IH [of "case map_of md key of None \<Rightarrow> cleaned
        | Some v \<Rightarrow> if allowed_type v then AList.update key v cleaned
            else if v \<noteq> PNone then AList.update key (PStr (py_str v)) cleaned else cleaned"]
    by (auto simp: dom_update split: option.splits if_splits)
qed

lemma clean_loop_distinct:
  "distinct (map fst cleaned) \<Longrightarrow> distinct (map fst (clean_loop md keys cleaned))"
  by (induction keys arbitrary: cleaned) (simp_all add: distinct_update split: option.splits)

lemma not_allowed_not_None: "\<not> allowed_type v \<Longrightarrow> v \<noteq> PNone"
  by (cases v) simp_all

lemma clean_loop_map_of:
  "distinct keys \<Longrightarrow>
   map_of (clean_loop md keys cleaned) k =
     (if k \<in> set keys then
        (case map_of md k of
           None \<Rightarrow> map_of cleaned k
         | Some v \<Rightarrow> Some (if allowed_type v then v else PStr (py_str v)))
      else map_of cleaned k)"
proof (induction keys arbitrary: cleaned)
  case Nil
  show ?case by simp
next
  case (Cons key keys)
  from Cons.prems have d: "distinct keys" and n: "key \<notin> set keys" by simp_all
  show ?case
  proof (cases "map_of md key")
    case None
    then show ?thesis using Cons.IH [OF d, of cleaned] n by (auto split: option.splits)
  next
    case (Some v)
    show ?thesis
    proof (cases "allowed_type v")
      case True
      with Some show ?thesis
        using Cons.IH [OF d, of "AList.update key v cleaned"] n
        by (auto simp: update_conv' split: option.splits)
    next
      case False
      with Some not_allowed_not_None [OF False] show ?thesis
        using Cons.IH [OF d, of "AList.update key (PStr (py_str v)) cleaned"] n
        by (auto simp: update_conv' split: option.splits)
    qed
  qed
qed

lemma keep_keys_distinct: "distinct keep_keys"
  by (simp add: keep_keys_def)

text \<open>
  C7: for every input mapping, \<^verbatim>\<open>clean_metadata\<close> returns a new mapping whose keys lie in
  the eight allowed keys; an allowed key present in the input with a string, int, float,
  bool or \<^verbatim>\<open>None\<close> value keeps its value, a present value of any other type is replaced
  by its string form, and a key absent from the input is absent from the output. The
  function has no raising branch: the lookup is guarded by the membership test, and
  the embedding is a total function.
\<close>

theorem clean_metadata_result:
  "fst ` set (clean_metadata md) \<subseteq> set keep_keys
   \<and> distinct (map fst (clean_metadata md))
   \<and> (\<forall>k v. k \<in> set keep_keys \<longrightarrow> map_of md k = Some v \<longrightarrow>
         map_of (clean_metadata md) k = Some (if allowed_type v then v else PStr (py_str v)))
   \<and> (\<forall>k. map_of md k = None \<longrightarrow> map_of (clean_metadata md) k = None)
   \<and> (\<forall>v. allowed_type v \<longleftrightarrow> (v = PNone \<or> (\<exists>b. v = PBool b) \<or> (\<exists>i. v = PInt i)
         \<or> (\<exists>r. v = PFloat r) \<or> (\<exists>s. v = PStr s)))"
proof (intro conjI allI impI)
  show "fst ` set (clean_metadata md) \<subseteq> set keep_keys"
    using clean_loop_keys [of md keep_keys "[]"] by (simp add: clean_metadata_def)
  show "distinct (map fst (clean_metadata md))"
    by (simp add: clean_metadata_def clean_loop_distinct)
next
  fix k v assume "k \<in> set keep_keys" "map_of md k = Some v"
  then show "map_of (clean_metadata md) k = Some (if allowed_type v then v else PStr (py_str v))"
    by (simp add: clean_metadata_def clean_loop_map_of [OF keep_keys_distinct])
next
  fix k assume "map_of md k = None"
  then show "map_of (clean_metadata md) k = None"
    by (simp add: clean_metadata_def clean_loop_map_of [OF keep_keys_distinct])
next
  fix v show "allowed_type v \<longleftrightarrow> (v = PNone \<or> (\<exists>b. v = PBool b) \<or> (\<exists>i. v = PInt i)
         \<or> (\<exists>r. v = PFloat r) \<or> (\<exists>s. v = PStr s))"
    by (cases v) simp_all
qed

text \<open>
  The statement of C7 at a mapping with a foreign key, a list-valued page and a \<^verbatim>\<open>None\<close>
  source.
\<close>

theorem clean_metadata_result_witness:
  "''page'' \<in> set keep_keys
   \<and> map_of [(''zz'', PInt 1), (''page'', PObj ''[1, 2]'' True), (''source'', PNone)] ''page''
       = Some (PObj ''[1, 2]'' True)
   \<and> map_of (clean_metadata [(''zz'', PInt 1), (''page'', PObj ''[1, 2]'' True), (''source'', PNone)]) ''page''
       = Some (PStr ''[1, 2]'')
   \<and> map_of (clean_metadata [(''zz'', PInt 1), (''page'', PObj ''[1, 2]'' True), (''source'', PNone)]) ''source''
       = Some PNone
   \<and> map_of (clean_metadata [(''zz'', PInt 1), (''page'', PObj ''[1, 2]'' True), (''source'', PNone)]) ''zz''
       = None"
proof -
  let ?md = "[(''zz'', PInt 1), (''page'', PObj ''[1, 2]'' True), (''source'', PNone)]"
  have k: "''page'' \<in> set keep_keys" "''source'' \<in> set keep_keys" by (simp_all add: keep_keys_def)
  have m: "map_of ?md ''page'' = Some (PObj ''[1, 2]'' True)" "map_of ?md ''source'' = Some PNone"
    by simp_all
  have z: "''zz'' \<notin> set keep_keys" by (simp add: keep_keys_def)
  from clean_metadata_result [of ?md] have
    a: "\<And>k v. k \<in> set keep_keys \<Longrightarrow> map_of ?md k = Some v \<Longrightarrow>
         map_of (clean_metadata ?md) k = Some (if allowed_type v then v else PStr (py_str v))"
    and s: "fst ` set (clean_metadata ?md) \<subseteq> set keep_keys" by blast+
  from s z have "''zz'' \<notin> fst ` set (clean_metadata ?md)" by blast
  then have "map_of (clean_metadata ?md) ''zz'' = None" by (simp add: map_of_eq_None_iff)
  with a [OF k(1) m(1)] a [OF k(2) m(2)] k m show ?thesis by simp
qed

section \<open>Tables with fewer than two rows\<close>

lemma table_to_markdown_short: "length table_data < 2 \<Longrightarrow> table_to_markdown table_data = []"
  by (simp add: table_to_markdown_def)

lemma extract_docx_table_short: "length rows < 2 \<Longrightarrow> extract_docx_table (Inr rows) = []"
  by (simp add: extract_docx_table_def)

lemma save_accumulated_tables:
  "filter (\<lambda>p. ptype p = ''table'') (content_parts (save_accumulated st))
     = filter (\<lambda>p. ptype p = ''table'') (content_parts st)
   \<and> table_count (save_accumulated st) = table_count st"
  by (simp add: save_accumulated_def Let_def)

text \<open>
  C6, as stated: a table with fewer than two rows leaves the section sequence unchanged.
  It does not: the extractor saves the text accumulated so far before it looks at the
  table, so the dropped table still separates the paragraph before it from the
  paragraph after it.
\<close>

theorem short_table_counterexample:
  "extract_content_from_docx
      (\<lambda>p. Inr [CT_P (Inr ''before''), CT_Tbl (Inr [[''only row'']]), CT_P (Inr ''after'')]) ''f.docx''
   \<noteq> extract_content_from_docx
      (\<lambda>p. Inr [CT_P (Inr ''before''), CT_P (Inr ''after'')]) ''f.docx''
   \<and> map page_content (extract_content_from_docx
      (\<lambda>p. Inr [CT_P (Inr ''before''), CT_Tbl (Inr [[''only row'']]), CT_P (Inr ''after'')]) ''f.docx'')
     = [''before'', ''after'']
   \<and> map page_content (extract_content_from_docx
      (\<lambda>p. Inr [CT_P (Inr ''before''), CT_P (Inr ''after'')]) ''f.docx'')
     = [''before'' @ [CHR 0x0A, CHR 0x0A] @ ''after'']"
  by code_simp

text \<open>
  C6, amended: for every table with fewer than two rows (the empty table included)
  \<^verbatim>\<open>table_to_markdown\<close> and \<^verbatim>\<open>extract_docx_table\<close> return the empty string, and the
  extractor emits no table section for it and does not count it. What the table does
  to the section sequence is what every table does first: the text accumulated before it
  is saved as a section.
\<close>

theorem short_table_dropped:
  "(length table_data < 2 \<longrightarrow> table_to_markdown table_data = [])
   \<and> (length rows < 2 \<longrightarrow>
        extract_docx_table (Inr rows) = []
        \<and> body_step (CT_Tbl (Inr rows)) st = Inr (save_accumulated st)
        \<and> filter (\<lambda>p. ptype p = ''table'') (content_parts (save_accumulated st))
            = filter (\<lambda>p. ptype p = ''table'') (content_parts st)
        \<and> table_count (save_accumulated st) = table_count st)"
  using save_accumulated_tables [of st]
  by (simp add: table_to_markdown_short extract_docx_table_short Let_def)

text \<open>The statement of C6 at the empty table and at a table of one row.\<close>

theorem short_table_dropped_witness:
  "length ([] :: pyval list list) < 2 \<and> table_to_markdown [] = []
   \<and> length [[''only row'']] < 2
   \<and> extract_docx_table (Inr [[''only row'']]) = []
   \<and> body_step (CT_Tbl (Inr [[''only row'']]))
        \<lparr>content_parts = [], current_section = [''before''], section_num = 0, table_count = 0\<rparr>
      = Inr \<lparr>content_parts = [\<lparr>ptype = ''text'', content = ''before'', part_section = 0\<rparr>],
             current_section = [], section_num = 1, table_count = 0\<rparr>"
  using short_table_dropped [of "[]" "[[''only row'']]"
      "\<lparr>content_parts = [], current_section = [''before''], section_num = 0, table_count = 0\<rparr>"]
  by (simp add: save_accumulated_def)

section \<open>Falsy table cells\<close>

lemma render_cell_falsy: "\<not> truthy cell \<Longrightarrow> render_cell cell = []"
  by (simp add: render_cell_def)

lemma render_cell_blank: "render_cell (blank_falsy cell) = render_cell cell"
  by (simp add: render_cell_def blank_falsy_def)

lemma row_line_blank: "row_line (map blank_falsy cells) = row_line cells"
  by (simp add: row_line_def render_cell_blank comp_def)

lemma pad_row_blank: "pad_row n (map blank_falsy row) = map blank_falsy (pad_row n row)"
proof -
  have "blank_falsy (PStr []) = PStr []"
    by (simp add: blank_falsy_def)
  then show ?thesis
    by (simp add: pad_row_def take_map)
qed

lemma table_to_markdown_blank:
  "table_to_markdown (map (map blank_falsy) table_data) = table_to_markdown table_data"
proof (cases table_data)
  case Nil
  then show ?thesis by (simp add: table_to_markdown_def)
next
  case (Cons headers rows)
  then show ?thesis
    by (simp add: table_to_markdown_def Let_def row_line_blank pad_row_blank comp_def)
qed

text \<open>
  C10: a falsy cell (the empty string, the integer 0, \<^verbatim>\<open>False\<close>, \<^verbatim>\<open>None\<close>) is rendered as
  the empty string and not as its string form, in the header row as in the data rows:
  a table renders as the table with every falsy cell emptied does. So the table with the
  header \<open>a, b\<close> and the data row \<open>0, x\<close> has no \<^verbatim>\<open>0\<close> in its markdown.
\<close>

theorem falsy_cell_rendered_empty:
  "(\<forall>cell \<in> {PStr [], PInt 0, PBool False, PNone}. \<not> truthy cell \<and> render_cell cell = [])
   \<and> (\<forall>cell. \<not> truthy cell \<longrightarrow> render_cell cell = [])
   \<and> table_to_markdown (map (map (\<lambda>cell. if truthy cell then cell else PStr [])) table_data)
       = table_to_markdown table_data
   \<and> PInt 0 \<in> set (concat [[PStr ''a'', PStr ''b''], [PInt 0, PStr ''x'']])
   \<and> table_to_markdown [[PStr ''a'', PStr ''b''], [PInt 0, PStr ''x'']]
       = ''| a | b |'' @ [CHR 0x0A] @ ''| --- | --- |'' @ [CHR 0x0A] @ ''|  | x |''
   \<and> CHR ''0'' \<notin> set (table_to_markdown [[PStr ''a'', PStr ''b''], [PInt 0, PStr ''x'']])"
proof (intro conjI)
  show "\<forall>cell \<in> {PStr [], PInt 0, PBool False, PNone}. \<not> truthy cell \<and> render_cell cell = []"
    by (simp add: render_cell_def)
  show "\<forall>cell. \<not> truthy cell \<longrightarrow> render_cell cell = []"
    by (simp add: render_cell_def)
  have "(\<lambda>cell. if truthy cell then cell else PStr []) = blank_falsy"
    by (rule ext) (simp add: blank_falsy_def)
  then show "table_to_markdown (map (map (\<lambda>cell. if truthy cell then cell else PStr [])) table_data)
       = table_to_markdown table_data"
    by (simp add: table_to_markdown_blank)
  show "PInt 0 \<in> set (concat [[PStr ''a'', PStr ''b''], [PInt 0, PStr ''x'']])"
    by simp
  show "table_to_markdown [[PStr ''a'', PStr ''b''], [PInt 0, PStr ''x'']]
       = ''| a | b |'' @ [CHR 0x0A] @ ''| --- | --- |'' @ [CHR 0x0A] @ ''|  | x |''"
    by code_simp
  show "CHR ''0'' \<notin> set (table_to_markdown [[PStr ''a'', PStr ''b''], [PInt 0, PStr ''x'']])"
    by code_simp
qed

text \<open>The statement of C10 at a header cell 0 and a data cell \<^verbatim>\<open>None\<close>.\<close>

theorem falsy_cell_rendered_empty_witness:
  "PInt 0 \<in> {PStr [], PInt 0, PBool False, PNone} \<and> \<not> truthy (PInt 0) \<and> render_cell (PInt 0) = []
   \<and> table_to_markdown [[PStr ''h'', PInt 0], [PNone, PInt 7]]
       = table_to_markdown [[PStr ''h'', PStr []], [PStr [], PInt 7]]"
  using falsy_cell_rendered_empty [of "[[PStr ''h'', PInt 0], [PNone, PInt 7]]"]
  by simp

section \<open>Failed extractions\<close>

lemma body_loop_raises:
  "CT_P (Inl e) \<in> set body \<Longrightarrow> \<exists>x. body_loop body st = Inl x"
proof (induction body arbitrary: st)
  case Nil
  then show ?case by simp
next
  case (Cons el body)
  show ?case
  proof (cases "body_step el st")
    case (Inl x)
    then show ?thesis by simp
  next
    case (Inr st1)
    then have "el \<noteq> CT_P (Inl e)" by auto
    with Cons.prems have "CT_P (Inl e) \<in> set body" by simp
    from Cons.IH [OF this, of st1] Inr show ?thesis by simp
  qed
qed

lemma extract_open_fails:
  "docx_open file_path = Inl e \<Longrightarrow> extract_content_from_docx docx_open file_path = []"
  by (simp add: extract_content_from_docx_def)

lemma extract_body_fails:
  assumes "docx_open file_path = Inr body" and "CT_P (Inl e) \<in> set body"
  shows "extract_content_from_docx docx_open file_path = []"
proof -
  from body_loop_raises [OF assms(2)] obtain x where
    "body_loop body \<lparr>content_parts = [], current_section = [], section_num = 0, table_count = 0\<rparr> = Inl x"
    by blast
  with assms(1) show ?thesis by (simp add: extract_content_from_docx_def)
qed

lemma load_loop_concat:
  "load_loop docx_open data_path files documents
     = documents @ concat (map (\<lambda>f. extract_content_from_docx docx_open (path_join data_path f)) files)"
  by (induction files arbitrary: documents) (simp_all add: Let_def)

lemma load_document_concat:
  "load_document docx_open data_path (Some names)
     = concat (map (\<lambda>f. extract_content_from_docx docx_open (path_join data_path f))
         (filter is_docx_file names))"
  by (simp add: load_document_def Let_def load_loop_concat)

text \<open>
  C8: when the extraction of one document fails, because the library cannot open the
  file or because reading an element of its body raises, \<^verbatim>\<open>extract_content_from_docx\<close>
  returns the empty list; \<^verbatim>\<open>load_document\<close> returns the sections of all the document
  files of the directory in listing order, so a file that yields no section is skipped,
  the files after it are still processed, and the result is the one of the directory
  without that file.
\<close>

theorem extraction_failure_skipped:
  "(docx_open file_path = Inl e \<longrightarrow> extract_content_from_docx docx_open file_path = [])
   \<and> (docx_open file_path = Inr body \<and> CT_P (Inl e) \<in> set body \<longrightarrow>
        extract_content_from_docx docx_open file_path = [])
   \<and> load_document docx_open data_path (Some names)
       = concat (map (\<lambda>f. extract_content_from_docx docx_open (path_join data_path f))
           (filter is_docx_file names))
   \<and> (extract_content_from_docx docx_open (path_join data_path bad) = [] \<longrightarrow>
        load_document docx_open data_path (Some (before @ bad # after))
          = load_document docx_open data_path (Some (before @ after)))"
proof (intro conjI impI)
  assume "docx_open file_path = Inl e"
  then show "extract_content_from_docx docx_open file_path = []" by (rule extract_open_fails)
next
  assume "docx_open file_path = Inr body \<and> CT_P (Inl e) \<in> set body"
  then show "extract_content_from_docx docx_open file_path = []"
    using extract_body_fails by blast
next
  show "load_document docx_open data_path (Some names)
       = concat (map (\<lambda>f. extract_content_from_docx docx_open (path_join data_path f))
           (filter is_docx_file names))"
    by (rule load_document_concat)
next
  assume "extract_content_from_docx docx_open (path_join data_path bad) = []"
  then show "load_document docx_open data_path (Some (before @ bad # after))
          = load_document docx_open data_path (Some (before @ after))"
    by (simp add: load_document_concat)
qed

text \<open>
  The statement of C8 on a directory of three document files: one that cannot be opened,
  one whose body raises, one that is sound.
\<close>

theorem extraction_failure_skipped_witness:
  "example_open ''/kb/bad.docx'' = Inl DocxError
   \<and> extract_content_from_docx example_open ''/kb/bad.docx'' = []
   \<and> example_open ''/kb/torn.docx'' = Inr [CT_P (Inr ''text''), CT_P (Inl DocxError)]
   \<and> CT_P (Inl DocxError) \<in> set [CT_P (Inr ''text''), CT_P (Inl DocxError)]
   \<and> extract_content_from_docx example_open ''/kb/torn.docx'' = []
   \<and> path_join ''/kb'' ''bad.docx'' = ''/kb/bad.docx''
   \<and> load_document example_open ''/kb'' (Some ([''torn.docx''] @ ''bad.docx'' # [''good.docx'']))
       = load_document example_open ''/kb'' (Some ([''torn.docx''] @ [''good.docx'']))
   \<and> map page_content (load_document example_open ''/kb'' (Some [''torn.docx'', ''bad.docx'', ''good.docx'']))
       = [''text'']"
proof -
  have o: "example_open ''/kb/bad.docx'' = Inl DocxError"
    and t: "example_open ''/kb/torn.docx'' = Inr [CT_P (Inr ''text''), CT_P (Inl DocxError)]"
    by (simp_all add: example_open_def)
  have m: "CT_P (Inl DocxError) \<in> set [CT_P (Inr ''text''), CT_P (Inl DocxError)]" by simp
  have p: "path_join ''/kb'' ''bad.docx'' = ''/kb/bad.docx''" by (simp add: path_join_def)
  note th = extraction_failure_skipped [of example_open "''/kb/bad.docx''" DocxError _ "''/kb''" _ "''bad.docx''"
      "[''torn.docx'']" "[''good.docx'']"]
  note th2 = extraction_failure_skipped [of example_open "''/kb/torn.docx''" DocxError
      "[CT_P (Inr ''text''), CT_P (Inl DocxError)]"]
  from th o have b: "extract_content_from_docx example_open ''/kb/bad.docx'' = []" by blast
  from th2 t m have c: "extract_content_from_docx example_open ''/kb/torn.docx'' = []" by blast
  from th b p have d: "load_document example_open ''/kb'' (Some ([''torn.docx''] @ ''bad.docx'' # [''good.docx'']))
       = load_document example_open ''/kb'' (Some ([''torn.docx''] @ [''good.docx'']))" by simp
  have g: "map page_content (load_document example_open ''/kb'' (Some [''torn.docx'', ''bad.docx'', ''good.docx'']))
       = [''text'']" by code_simp
  from o t m p b c d g show ?thesis by simp
qed

section \<open>The shape of a markdown table\<close>

lemma split_on_plain: "c \<notin> set s \<Longrightarrow> split_on c s = [s]"
  by (induction s) auto

lemma split_on_first: "c \<notin> set a \<Longrightarrow> split_on c (a @ c # rest) = a # split_on c rest"
  by (induction a) auto

lemma split_on_join:
  "ls \<noteq> [] \<Longrightarrow> \<forall>l \<in> set ls. c \<notin> set l \<Longrightarrow> split_on c (str_join [c] ls) = ls"
proof (induction "[c]" ls rule: str_join.induct)
  case 1
  then show ?case by simp
next
  case (2 x)
  then show ?case by (simp add: split_on_plain)
next
  case (3 x y ys)
  then show ?case by (simp add: split_on_first)
qed

lemma set_str_join: "set (str_join sep xs) \<subseteq> set sep \<union> \<Union> (set ` set xs)"
  by (induction sep xs rule: str_join.induct) auto

lemma row_line_no_newline:
  assumes "\<forall>cell \<in> set cells. CHR 0x0A \<notin> set (render_cell cell)"
  shows "CHR 0x0A \<notin> set (row_line cells)"
proof -
  have "CHR 0x0A \<notin> set '' | '' \<union> \<Union> (set ` set (map render_cell cells))"
    using assms by simp
  with set_str_join [of "'' | ''" "map render_cell cells"]
  have "CHR 0x0A \<notin> set (str_join '' | '' (map render_cell cells))" by blast
  then show ?thesis by (simp add: row_line_def)
qed

lemma separator_line_no_newline: "CHR 0x0A \<notin> set (separator_line n)"
proof -
  have "CHR 0x0A \<notin> set '' | '' \<union> \<Union> (set ` set (replicate n ''---''))"
    by simp
  with set_str_join [of "'' | ''" "replicate n ''---''"]
  have "CHR 0x0A \<notin> set (str_join '' | '' (replicate n ''---''))" by blast
  then show ?thesis by (simp add: separator_line_def)
qed

lemma length_pad_row: "length (pad_row n row) = n"
  by (simp add: pad_row_def)

lemma nth_pad_row: "j < n \<Longrightarrow> pad_row n row ! j = (if j < length row then row ! j else PStr [])"
  by (simp add: pad_row_def nth_append)

lemma set_pad_row: "set (pad_row n row) \<subseteq> insert (PStr []) (set row)"
proof -
  have "set (pad_row n row) \<subseteq> set (row @ replicate (n - length row) (PStr []))"
    unfolding pad_row_def by (rule set_take_subset)
  then show ?thesis by auto
qed

lemma pad_row_no_newline:
  assumes "\<forall>cell \<in> set row. CHR 0x0A \<notin> set (render_cell cell)"
  shows "CHR 0x0A \<notin> set (row_line (pad_row n row))"
proof (rule row_line_no_newline, rule ballI)
  fix cell assume "cell \<in> set (pad_row n row)"
  with set_pad_row [of n row] have "cell = PStr [] \<or> cell \<in> set row" by blast
  with assms show "CHR 0x0A \<notin> set (render_cell cell)"
    by (auto simp: render_cell_def)
qed

lemma markdown_lines:
  assumes "2 \<le> length table_data"
    and "\<forall>row \<in> set table_data. \<forall>cell \<in> set row. CHR 0x0A \<notin> set (render_cell cell)"
  shows "split_on (CHR 0x0A) (table_to_markdown table_data)
     = row_line (hd table_data) # separator_line (length (hd table_data))
       # map (\<lambda>row. row_line (pad_row (length (hd table_data)) row)) (tl table_data)"
proof -
  from assms(1) obtain headers rows where t: "table_data = headers # rows"
    by (cases table_data) auto
  let ?ls = "row_line headers # separator_line (length headers)
       # map (\<lambda>row. row_line (pad_row (length headers) row)) rows"
  have "\<forall>l \<in> set ?ls. CHR 0x0A \<notin> set l"
    using assms(2) t
    by (auto simp: row_line_no_newline separator_line_no_newline pad_row_no_newline)
  then have "split_on (CHR 0x0A) (str_join [CHR 0x0A] ?ls) = ?ls"
    by (intro split_on_join) simp_all
  moreover from assms(1) t have "rows \<noteq> []" by auto
  ultimately show ?thesis using t
    by (simp add: table_to_markdown_def Let_def)
qed

text \<open>
  C5, as stated: for every table with at least two rows the returned string has one
  header line, one separator line and one line per data row. It has more when a cell
  holds a line break: the cell text goes into the row as it is.
\<close>

theorem markdown_line_count_counterexample:
  "2 \<le> length [[PStr (''a'' @ [CHR 0x0A] @ ''b'')], [PStr ''c'']]
   \<and> length (split_on (CHR 0x0A) (table_to_markdown [[PStr (''a'' @ [CHR 0x0A] @ ''b'')], [PStr ''c'']]))
       \<noteq> 1 + 1 + length (tl [[PStr (''a'' @ [CHR 0x0A] @ ''b'')], [PStr ''c'']])
   \<and> split_on (CHR 0x0A) (table_to_markdown [[PStr (''a'' @ [CHR 0x0A] @ ''b'')], [PStr ''c'']])
       = [''| a'', ''b |'', ''| --- |'', ''| c |'']"
  by code_simp

text \<open>
  C5, amended: for every table with at least two rows in which no rendered cell holds a
  line break, the lines of the returned string are the header line, the separator line of
  dashes (one \<^verbatim>\<open>---\<close> per header cell) and one line per data row, in that order; the line of
  a data row is made of exactly as many cells as the header has, the cells of the row
  followed by empty cells when it is short and cut after the header's count when it is
  long.
\<close>

theorem markdown_table_shape:
  assumes "2 \<le> length table_data"
    and "\<forall>row \<in> set table_data. \<forall>cell \<in> set row. CHR 0x0A \<notin> set (render_cell cell)"
  shows "split_on (CHR 0x0A) (table_to_markdown table_data)
       = row_line (hd table_data) # separator_line (length (hd table_data))
         # map (\<lambda>row. row_line (pad_row (length (hd table_data)) row)) (tl table_data)
     \<and> length (split_on (CHR 0x0A) (table_to_markdown table_data)) = 1 + 1 + length (tl table_data)
     \<and> (\<forall>row. length (pad_row (length (hd table_data)) row) = length (hd table_data)
          \<and> (\<forall>j < length (hd table_data).
                pad_row (length (hd table_data)) row ! j = (if j < length row then row ! j else PStr [])))"
  using markdown_lines [OF assms] by (simp add: length_pad_row nth_pad_row)

text \<open>The statement of C5 at a table with a short row and a long row.\<close>

theorem markdown_table_shape_witness:
  "2 \<le> length [[PStr ''a'', PStr ''b''], [PInt 5], [PStr ''x'', PStr ''y'', PStr ''z'']]
   \<and> list_all (list_all (\<lambda>cell. CHR 0x0A \<notin> set (render_cell cell)))
        [[PStr ''a'', PStr ''b''], [PInt 5], [PStr ''x'', PStr ''y'', PStr ''z'']]
   \<and> split_on (CHR 0x0A)
        (table_to_markdown [[PStr ''a'', PStr ''b''], [PInt 5], [PStr ''x'', PStr ''y'', PStr ''z'']])
       = [''| a | b |'', ''| --- | --- |'', ''| 5 |  |'', ''| x | y |'']"
proof -
  let ?t = "[[PStr ''a'', PStr ''b''], [PInt 5], [PStr ''x'', PStr ''y'', PStr ''z'']]"
  have l: "2 \<le> length ?t" by simp
  have s5: "str_int 5 = ''5''" by code_simp
  have n: "\<forall>row \<in> set ?t. \<forall>cell \<in> set row. CHR 0x0A \<notin> set (render_cell cell)"
    by (simp add: render_cell_def s5)
  from markdown_table_shape [OF l n]
  have "split_on (CHR 0x0A) (table_to_markdown ?t)
       = row_line (hd ?t) # separator_line (length (hd ?t))
         # map (\<lambda>row. row_line (pad_row (length (hd ?t)) row)) (tl ?t)" by blast
  also have "\<dots> = [''| a | b |'', ''| --- | --- |'', ''| 5 |  |'', ''| x | y |'']"
    by code_simp
  finally show ?thesis using l n by (simp add: list_all_iff)
qed

section \<open>The page identity string\<close>

lemma takeWhile_whole: "c \<notin> set zs \<Longrightarrow> takeWhile (\<lambda>x. x \<noteq> c) zs = zs"
  by (induction zs) auto

lemma split_suffix:
  assumes e: "a @ u = b @ v"
    and a: "c \<notin> set a" and b: "c \<notin> set b"
    and u: "u = [] \<or> hd u = c" and v: "v = [] \<or> hd v = c"
  shows "a = b \<and> u = v"
proof -
  have ta: "takeWhile (\<lambda>x. x \<noteq> c) (a @ u) = a"
  proof (cases u)
    case Nil
    with a show ?thesis by (simp add: takeWhile_whole)
  next
    case (Cons h w)
    with u have "u = c # w" by simp
    with a show ?thesis by (simp add: takeWhile_until)
  qed
  have tb: "takeWhile (\<lambda>x. x \<noteq> c) (b @ v) = b"
  proof (cases v)
    case Nil
    with b show ?thesis by (simp add: takeWhile_whole)
  next
    case (Cons h w)
    with v have "v = c # w" by simp
    with b show ?thesis by (simp add: takeWhile_until)
  qed
  from e ta tb have "a = b" by metis
  with e show ?thesis by simp
qed

lemma flag_suffixes_inj: "flag_suffixes t ocr = flag_suffixes t' ocr' \<Longrightarrow> t = t' \<and> ocr = ocr'"
  by (cases t; cases t'; cases ocr; cases ocr') (simp_all add: flag_suffixes_def)

lemma flag_suffixes_head: "flag_suffixes t ocr = [] \<or> hd (flag_suffixes t ocr) = CHR ''_''"
  by (cases t; cases ocr) (simp_all add: flag_suffixes_def)

lemma flag_suffixes_no_colon: "CHR '':'' \<notin> set (flag_suffixes t ocr)"
  by (cases t; cases ocr) (simp_all add: flag_suffixes_def)

lemma page_part_inj:
  assumes "str_int p @ flag_suffixes t ocr = str_int p' @ flag_suffixes t' ocr'"
  shows "p = p' \<and> t = t' \<and> ocr = ocr'"
proof -
  from split_suffix [OF assms str_int_no_underscore str_int_no_underscore
      flag_suffixes_head flag_suffixes_head]
  have "str_int p = str_int p'" "flag_suffixes t ocr = flag_suffixes t' ocr'" by simp_all
  then show ?thesis by (auto dest: str_int_inj flag_suffixes_inj)
qed

lemma page_id_plain:
  assumes "plain_fields c"
  obtains s f p t ocr where
    "composite_key c = (PStr s, PStr f, PInt p, PBool t, PBool ocr)"
    "CHR '':'' \<notin> set f"
    "current_page_id (metadata c) = (s @ CHR '':'' # f) @ CHR '':'' # (''page_'' @ str_int p @ flag_suffixes t ocr)"
proof -
  obtain a b x y z where k: "composite_key c = (a, b, x, y, z)"
    by (cases "composite_key c") auto
  with assms have ty: "is_str a" "colon_free b" "is_int x" "is_bool y" "is_bool z"
    by (simp_all add: plain_fields_def)
  from ty(1) obtain s where a: "a = PStr s" by (cases a) simp_all
  from ty(2) obtain f where b: "b = PStr f" and f: "CHR '':'' \<notin> set f" by (cases b) simp_all
  from ty(3) obtain p where x: "x = PInt p" by (cases x) simp_all
  from ty(4) obtain t where y: "y = PBool t" by (cases y) simp_all
  from ty(5) obtain ocr where z: "z = PBool ocr" by (cases z) simp_all
  from k a b x y z have v:
    "dict_get (metadata c) ''source'' (PStr ''UNKNOWN_SOURCE'') = PStr s"
    "dict_get (metadata c) ''file_type'' (PStr ''unknown'') = PStr f"
    "dict_get (metadata c) ''page'' (PInt 0) = PInt p"
    "dict_get (metadata c) ''has_table'' (PBool False) = PBool t"
    "dict_get (metadata c) ''used_ocr'' (PBool False) = PBool ocr"
    by (simp_all add: composite_key_def Let_def)
  have "current_page_id (metadata c)
      = (s @ CHR '':'' # f) @ CHR '':'' # (''page_'' @ str_int p @ flag_suffixes t ocr)"
    by (simp add: current_page_id_def Let_def v flag_suffixes_def)
  with k a b x y z f show thesis by (intro that) simp_all
qed

lemma page_id_inj:
  assumes "plain_fields c" and "plain_fields d"
  shows "current_page_id (metadata c) = current_page_id (metadata d)
     \<longleftrightarrow> composite_key c = composite_key d"
proof -
  from assms(1) obtain s f p t ocr where
    kc: "composite_key c = (PStr s, PStr f, PInt p, PBool t, PBool ocr)" and fc: "CHR '':'' \<notin> set f"
    and pc: "current_page_id (metadata c)
       = (s @ CHR '':'' # f) @ CHR '':'' # (''page_'' @ str_int p @ flag_suffixes t ocr)"
    by (rule page_id_plain)
  from assms(2) obtain s' f' p' t' ocr' where
    kd: "composite_key d = (PStr s', PStr f', PInt p', PBool t', PBool ocr')" and fd: "CHR '':'' \<notin> set f'"
    and pd: "current_page_id (metadata d)
       = (s' @ CHR '':'' # f') @ CHR '':'' # (''page_'' @ str_int p' @ flag_suffixes t' ocr')"
    by (rule page_id_plain)
  show ?thesis
  proof
    assume "current_page_id (metadata c) = current_page_id (metadata d)"
    with pc pd have e: "(s @ CHR '':'' # f) @ CHR '':'' # (''page_'' @ str_int p @ flag_suffixes t ocr)
       = (s' @ CHR '':'' # f') @ CHR '':'' # (''page_'' @ str_int p' @ flag_suffixes t' ocr')"
      by simp
    have n: "CHR '':'' \<notin> set (''page_'' @ str_int p @ flag_suffixes t ocr)"
      "CHR '':'' \<notin> set (''page_'' @ str_int p' @ flag_suffixes t' ocr')"
      by (simp_all add: str_int_no_colon flag_suffixes_no_colon)
    from split_last [OF e n] have e1: "s @ CHR '':'' # f = s' @ CHR '':'' # f'"
      and e2: "str_int p @ flag_suffixes t ocr = str_int p' @ flag_suffixes t' ocr'" by simp_all
    from split_last [OF e1 fc fd] page_part_inj [OF e2] kc kd
    show "composite_key c = composite_key d" by simp
  next
    assume "composite_key c = composite_key d"
    with kc kd pc pd show "current_page_id (metadata c) = current_page_id (metadata d)" by simp
  qed
qed

section \<open>The chunk counter\<close>

lemma doc_id_update: "doc_id (c\<lparr>metadata := AList.update ''id'' v (metadata c)\<rparr>) = Some v"
  by (simp add: doc_id_def update_conv')

lemma length_chunk_indices: "length (chunk_indices prev idx chunks) = length chunks"
  by (induction chunks arbitrary: prev idx) (simp_all add: Let_def)

lemma assign_ids_indices:
  "map doc_id (assign_ids prev idx chunks)
     = map2 (\<lambda>c n. Some (PStr (current_page_id (metadata c) @ '':chunk_'' @ str_int n)))
         chunks (chunk_indices prev idx chunks)"
  by (induction chunks arbitrary: prev idx) (simp_all add: Let_def doc_id_update)

lemma chunk_indices_first:
  "chunks \<noteq> [] \<Longrightarrow> chunk_indices prev idx chunks ! 0
     = (if Some (current_page_id (metadata (chunks ! 0))) = prev then idx + 1 else 0)"
  by (cases chunks) (simp_all add: Let_def)

lemma chunk_indices_next:
  "Suc k < length chunks \<Longrightarrow>
   chunk_indices prev idx chunks ! Suc k
     = (if current_page_id (metadata (chunks ! Suc k)) = current_page_id (metadata (chunks ! k))
        then chunk_indices prev idx chunks ! k + 1 else 0)"
proof (induction chunks arbitrary: prev idx k)
  case Nil
  then show ?case by simp
next
  case (Cons c chunks)
  let ?pid = "current_page_id (metadata c)"
  let ?idx = "if Some ?pid = prev then idx + 1 else 0"
  have u: "chunk_indices prev idx (c # chunks) = ?idx # chunk_indices (Some ?pid) ?idx chunks"
    by (simp add: Let_def)
  show ?case
  proof (cases k)
    case 0
    with Cons.prems have ne: "chunks \<noteq> []" by auto
    from chunk_indices_first [OF ne, of "Some ?pid" ?idx] 0 show ?thesis
      unfolding u by simp
  next
    case (Suc j)
    with Cons.prems have "Suc j < length chunks" by simp
    from Cons.IH [OF this, of "Some ?pid" ?idx] Suc show ?thesis
      unfolding u by simp
  qed
qed

text \<open>
  C4, as stated: on every input sorted by the contract's key the counter restarts at 0
  exactly when the composite key differs from the one of the chunk before. The loop
  compares the page identity strings, not the keys, and the string does not determine
  the key: the colon that separates source and file type may also occur inside them.
  Two chunks in sorted order with different keys and one string, and the counter goes on.
\<close>

theorem counter_counterexample:
  "sorted (map contract_key
     [\<lparr>page_content = ''x'', metadata = [(''source'', PStr ''a''), (''file_type'', PStr ''b:c'')]\<rparr>,
      \<lparr>page_content = ''y'', metadata = [(''source'', PStr ''a:b''), (''file_type'', PStr ''c'')]\<rparr>])
   \<and> composite_key \<lparr>page_content = ''y'', metadata = [(''source'', PStr ''a:b''), (''file_type'', PStr ''c'')]\<rparr>
       \<noteq> composite_key \<lparr>page_content = ''x'', metadata = [(''source'', PStr ''a''), (''file_type'', PStr ''b:c'')]\<rparr>
   \<and> chunk_indices None 0
     [\<lparr>page_content = ''x'', metadata = [(''source'', PStr ''a''), (''file_type'', PStr ''b:c'')]\<rparr>,
      \<lparr>page_content = ''y'', metadata = [(''source'', PStr ''a:b''), (''file_type'', PStr ''c'')]\<rparr>]
     = [0, 1]
   \<and> map doc_id (calculate_chunk_ids
     [\<lparr>page_content = ''x'', metadata = [(''source'', PStr ''a''), (''file_type'', PStr ''b:c'')]\<rparr>,
      \<lparr>page_content = ''y'', metadata = [(''source'', PStr ''a:b''), (''file_type'', PStr ''c'')]\<rparr>])
     = [Some (PStr ''a:b:c:page_0:chunk_0''), Some (PStr ''a:b:c:page_0:chunk_1'')]"
  by code_simp

text \<open>
  C4, amended: for every input sequence, sorted or not, of chunks whose source is a
  string, whose file type is a string without a colon, whose page is an integer and
  whose two flags are booleans, the ID of each chunk is its page identity string followed
  by \<^verbatim>\<open>:chunk_\<close> and the counter; the counter is 0 at the first chunk, restarts at 0 exactly
  when the composite key \<open>(source, file_type, page, has_table, used_ocr)\<close> differs from the
  one of the chunk before, and is one more than the counter before when the key is the
  same.
\<close>

theorem counter_follows_composite_key:
  assumes "\<forall>c \<in> set chunks. plain_fields c"
  shows "length (chunk_indices None 0 chunks) = length chunks
     \<and> map doc_id (calculate_chunk_ids chunks)
         = map2 (\<lambda>c n. Some (PStr (current_page_id (metadata c) @ '':chunk_'' @ str_int n)))
             chunks (chunk_indices None 0 chunks)
     \<and> (chunks \<noteq> [] \<longrightarrow> chunk_indices None 0 chunks ! 0 = 0)
     \<and> (\<forall>k. Suc k < length chunks \<longrightarrow>
           chunk_indices None 0 chunks ! Suc k
             = (if composite_key (chunks ! Suc k) = composite_key (chunks ! k)
                then chunk_indices None 0 chunks ! k + 1 else 0))"
proof (intro conjI allI impI)
  show "length (chunk_indices None 0 chunks) = length chunks"
    by (rule length_chunk_indices)
  show "map doc_id (calculate_chunk_ids chunks)
         = map2 (\<lambda>c n. Some (PStr (current_page_id (metadata c) @ '':chunk_'' @ str_int n)))
             chunks (chunk_indices None 0 chunks)"
    unfolding calculate_chunk_ids_def by (rule assign_ids_indices)
next
  assume "chunks \<noteq> []"
  from chunk_indices_first [OF this, of None 0]
  show "chunk_indices None 0 chunks ! 0 = 0" by simp
next
  fix k assume k: "Suc k < length chunks"
  then have "chunks ! Suc k \<in> set chunks" "chunks ! k \<in> set chunks" by simp_all
  with assms have "plain_fields (chunks ! Suc k)" "plain_fields (chunks ! k)" by blast+
  from page_id_inj [OF this] chunk_indices_next [OF k, of None 0]
  show "chunk_indices None 0 chunks ! Suc k
             = (if composite_key (chunks ! Suc k) = composite_key (chunks ! k)
                then chunk_indices None 0 chunks ! k + 1 else 0)" by simp
qed

text \<open>The statement of C4 at three chunks of one document, two of them of the same page.\<close>

theorem counter_follows_composite_key_witness:
  "list_all plain_fields
     [\<lparr>page_content = ''x'', metadata = [(''source'', PStr ''a.docx''), (''page'', PInt 0), (''file_type'', PStr ''docx'')]\<rparr>,
      \<lparr>page_content = ''y'', metadata = [(''source'', PStr ''a.docx''), (''page'', PInt 0), (''file_type'', PStr ''docx'')]\<rparr>,
      \<lparr>page_content = ''z'', metadata = [(''source'', PStr ''a.docx''), (''page'', PInt 1), (''file_type'', PStr ''docx'')]\<rparr>]
   \<and> chunk_indices None 0
     [\<lparr>page_content = ''x'', metadata = [(''source'', PStr ''a.docx''), (''page'', PInt 0), (''file_type'', PStr ''docx'')]\<rparr>,
      \<lparr>page_content = ''y'', metadata = [(''source'', PStr ''a.docx''), (''page'', PInt 0), (''file_type'', PStr ''docx'')]\<rparr>,
      \<lparr>page_content = ''z'', metadata = [(''source'', PStr ''a.docx''), (''page'', PInt 1), (''file_type'', PStr ''docx'')]\<rparr>]
     ! Suc 0 = 1
   \<and> chunk_indices None 0
     [\<lparr>page_content = ''x'', metadata = [(''source'', PStr ''a.docx''), (''page'', PInt 0), (''file_type'', PStr ''docx'')]\<rparr>,
      \<lparr>page_content = ''y'', metadata = [(''source'', PStr ''a.docx''), (''page'', PInt 0), (''file_type'', PStr ''docx'')]\<rparr>,
      \<lparr>page_content = ''z'', metadata = [(''source'', PStr ''a.docx''), (''page'', PInt 1), (''file_type'', PStr ''docx'')]\<rparr>]
     ! Suc (Suc 0) = 0"
proof -
  let ?cs = "[\<lparr>page_content = ''x'', metadata = [(''source'', PStr ''a.docx''), (''page'', PInt 0), (''file_type'', PStr ''docx'')]\<rparr>,
      \<lparr>page_content = ''y'', metadata = [(''source'', PStr ''a.docx''), (''page'', PInt 0), (''file_type'', PStr ''docx'')]\<rparr>,
      \<lparr>page_content = ''z'', metadata = [(''source'', PStr ''a.docx''), (''page'', PInt 1), (''file_type'', PStr ''docx'')]\<rparr>]"
  have p: "list_all plain_fields ?cs" by code_simp
  then have "\<forall>c \<in> set ?cs. plain_fields c" by (simp only: list_all_iff)
  from counter_follows_composite_key [OF this] have
    z: "chunk_indices None 0 ?cs ! 0 = 0"
    and n: "\<And>k. Suc k < length ?cs \<Longrightarrow> chunk_indices None 0 ?cs ! Suc k
             = (if composite_key (?cs ! Suc k) = composite_key (?cs ! k)
                then chunk_indices None 0 ?cs ! k + 1 else 0)" by simp_all
  have k1: "composite_key (?cs ! Suc 0) = composite_key (?cs ! 0)" by code_simp
  have k2: "composite_key (?cs ! Suc (Suc 0)) \<noteq> composite_key (?cs ! Suc 0)" by code_simp
  from n [of 0] k1 z have a: "chunk_indices None 0 ?cs ! Suc 0 = 1" by simp
  from n [of "Suc 0"] k2 have b: "chunk_indices None 0 ?cs ! Suc (Suc 0) = 0" by simp
  from p a b show ?thesis by blast
qed

section \<open>Runs of one page identity\<close>

lemma grouped_tail: "grouped (p # ps) \<Longrightarrow> grouped ps"
  by (simp only: grouped.simps)

lemma grouped_next: "grouped (q # p # ps) \<Longrightarrow> q \<in> set (p # ps) \<Longrightarrow> q = p"
  by (metis grouped.simps(2) list.sel(1))

lemma run_counters:
  assumes "grouped ((case prev of None \<Rightarrow> [] | Some q \<Rightarrow> [q]) @ map (\<lambda>c. current_page_id (metadata c)) chunks)"
  shows "distinct (zip (map (\<lambda>c. current_page_id (metadata c)) chunks) (chunk_indices prev idx chunks))
     \<and> (\<forall>q n. (q, n) \<in> set (zip (map (\<lambda>c. current_page_id (metadata c)) chunks)
                                  (chunk_indices prev idx chunks))
            \<longrightarrow> Some q = prev \<longrightarrow> idx < n)"
  using assms
proof (induction chunks arbitrary: prev idx)
  case Nil
  show ?case by simp
next
  case (Cons c chunks)
  let ?pid = "\<lambda>c. current_page_id (metadata c)"
  let ?p = "?pid c"
  let ?idx = "if Some ?p = prev then idx + 1 else 0"
  let ?z = "zip (map ?pid chunks) (chunk_indices (Some ?p) ?idx chunks)"
  have u: "chunk_indices prev idx (c # chunks) = ?idx # chunk_indices (Some ?p) ?idx chunks"
    by (simp add: Let_def)
  have g: "grouped (?p # map ?pid chunks)"
  proof (cases prev)
    case None
    with Cons.prems show ?thesis
      by (simp only: option.case append_Nil list.map)
  next
    case (Some q)
    with Cons.prems have "grouped (q # ?p # map ?pid chunks)"
      by (simp only: option.case append_Cons append_Nil list.map)
    then show ?thesis by (rule grouped_tail)
  qed
  then have "grouped ((case Some ?p of None \<Rightarrow> [] | Some q \<Rightarrow> [q]) @ map ?pid chunks)"
    by (simp only: option.case append_Cons append_Nil)
  from Cons.IH [OF this, of ?idx]
  have d: "distinct ?z"
    and l0: "\<forall>q n. (q, n) \<in> set ?z \<longrightarrow> Some q = Some ?p \<longrightarrow> ?idx < n"
    by (rule conjunct1, rule conjunct2)
  have l: "?idx < n" if "(?p, n) \<in> set ?z" for n
    using l0 that by blast
  have h: "(?p, ?idx) \<notin> set ?z"
  proof
    assume "(?p, ?idx) \<in> set ?z"
    from l [OF this] show False by simp
  qed
  have b: "idx < n" if m: "(q, n) \<in> set ?z" and q: "Some q = prev" for q n
  proof -
    from q have pq: "prev = Some q" by (rule sym)
    from m have "q \<in> set (map ?pid chunks)" by (rule set_zip_leftD)
    then have qs: "q \<in> set (?p # map ?pid chunks)" by (rule list.set_intros(2))
    from Cons.prems have "grouped (q # ?p # map ?pid chunks)"
      unfolding pq by (simp only: option.case append_Cons append_Nil list.map)
    from grouped_next [OF this qs] have e: "q = ?p" .
    with m have "(?p, n) \<in> set ?z" by (simp only:)
    from l [OF this] have "?idx < n" .
    moreover from e pq have "?idx = idx + 1" by simp
    ultimately show ?thesis by linarith
  qed
  have z: "zip (map ?pid (c # chunks)) (chunk_indices prev idx (c # chunks)) = (?p, ?idx) # ?z"
    unfolding u by (simp only: list.map zip_Cons_Cons)
  have "distinct ((?p, ?idx) # ?z)" using d h by (simp only: distinct.simps) blast
  moreover have "idx < n" if m: "(q, n) \<in> set ((?p, ?idx) # ?z)" and q: "Some q = prev" for q n
  proof (cases "(q, n) = (?p, ?idx)")
    case True
    then have "q = ?p" "n = ?idx" by blast+
    with q have "n = idx + 1" by simp
    then show ?thesis by linarith
  next
    case False
    from set_ConsD [OF m] False have "(q, n) \<in> set ?z" by blast
    from b [OF this q] show ?thesis .
  qed
  ultimately show ?case unfolding z by blast
qed

lemma ids_of_pairs:
  "map doc_id (assign_ids prev idx chunks)
     = map (\<lambda>(p, n). Some (PStr (p @ '':chunk_'' @ str_int n)))
         (zip (map (\<lambda>c. current_page_id (metadata c)) chunks) (chunk_indices prev idx chunks))"
  by (induction chunks arbitrary: prev idx) (simp_all add: Let_def doc_id_update)

lemma id_of_pair_inj: "inj (\<lambda>(p, n). Some (PStr (p @ '':chunk_'' @ str_int n)))"
proof (rule injI)
  fix x y :: "string \<times> int"
  obtain p n where x: "x = (p, n)" by (cases x)
  obtain q m where y: "y = (q, m)" by (cases y)
  assume "(case x of (p, n) \<Rightarrow> Some (PStr (p @ '':chunk_'' @ str_int n)))
      = (case y of (p, n) \<Rightarrow> Some (PStr (p @ '':chunk_'' @ str_int n)))"
  with x y have "p @ '':chunk_'' @ str_int n = q @ '':chunk_'' @ str_int m" by simp
  from chunk_id_inj [OF this] x y show "x = y" by simp
qed

lemma grouped_ids_distinct:
  assumes "grouped (map (\<lambda>c. current_page_id (metadata c)) chunks)"
  shows "distinct (map doc_id (calculate_chunk_ids chunks))"
proof -
  from assms have "grouped ((case None of None \<Rightarrow> [] | Some q \<Rightarrow> [q])
      @ map (\<lambda>c. current_page_id (metadata c)) chunks)" by simp
  from run_counters [OF this, of 0]
  have "distinct (zip (map (\<lambda>c. current_page_id (metadata c)) chunks) (chunk_indices None 0 chunks))"
    by blast
  moreover have "inj_on (\<lambda>(p, n). Some (PStr (p @ '':chunk_'' @ str_int n)))
      (set (zip (map (\<lambda>c. current_page_id (metadata c)) chunks) (chunk_indices None 0 chunks)))"
    using id_of_pair_inj by (rule inj_on_subset) simp
  ultimately show ?thesis
    unfolding calculate_chunk_ids_def ids_of_pairs
    by (simp add: distinct_map)
qed

section \<open>Uniqueness of the assigned IDs\<close>

lemma lex_squeeze:
  fixes a a' :: "'a::linorder" and r r' r'' :: "'b::linorder"
  assumes "(a, r) \<le> (a', r')" and "(a', r') \<le> (a, r'')"
  shows "a' = a \<and> r \<le> r' \<and> r' \<le> r''"
  using assms by (auto simp: less_eq_prod_def)

lemma key_squeeze:
  fixes k1 k2 k3 :: "string \<times> int \<times> bool \<times> int"
  assumes "k1 \<le> k2" and "k2 \<le> k3"
    and "fst k1 = fst k3" and "fst (snd k1) = fst (snd k3)"
    and "fst (snd (snd k1)) = fst (snd (snd k3))"
  shows "fst k2 = fst k1 \<and> fst (snd k2) = fst (snd k1) \<and> fst (snd (snd k2)) = fst (snd (snd k1))"
proof -
  obtain s1 p1 t1 x1 where k1: "k1 = (s1, p1, t1, x1)" by (cases k1) auto
  obtain s2 p2 t2 x2 where k2: "k2 = (s2, p2, t2, x2)" by (cases k2) auto
  obtain s3 p3 t3 x3 where k3: "k3 = (s3, p3, t3, x3)" by (cases k3) auto
  from assms(3-5) k1 k3 have e: "s3 = s1" "p3 = p1" "t3 = t1" by simp_all
  from assms(1,2) have a: "(s1, p1, t1, x1) \<le> (s2, p2, t2, x2)" "(s2, p2, t2, x2) \<le> (s1, p1, t1, x3)"
    unfolding k1 k2 k3 e by simp_all
  from lex_squeeze [OF a] have s: "s2 = s1"
    and b: "(p1, t1, x1) \<le> (p2, t2, x2)" "(p2, t2, x2) \<le> (p1, t1, x3)" by simp_all
  from lex_squeeze [OF b] have p: "p2 = p1"
    and c: "(t1, x1) \<le> (t2, x2)" "(t2, x2) \<le> (t1, x3)" by simp_all
  from lex_squeeze [OF c] have t: "t2 = t1" by simp
  from s p t show ?thesis unfolding k1 k2 by simp
qed

lemma same_section_sym: "same_section c d \<Longrightarrow> same_section d c"
  by (simp add: same_section_def)

lemma plain_key:
  assumes "plain_fields c" and "has_source c"
  obtains s f p t ocr where
    "composite_key c = (PStr s, PStr f, PInt p, PBool t, PBool ocr)"
    "fst (contract_key c) = s" "fst (snd (contract_key c)) = p" "fst (snd (snd (contract_key c))) = t"
proof -
  from assms(1) obtain s f p t ocr where
    k: "composite_key c = (PStr s, PStr f, PInt p, PBool t, PBool ocr)"
    by (rule page_id_plain)
  from assms(2) obtain v where v: "map_of (metadata c) ''source'' = Some v"
    by (auto simp: has_source_def)
  from k v have "v = PStr s" by (simp add: composite_key_def Let_def dict_get_def)
  with v have "dict_get (metadata c) ''source'' (PStr []) = PStr s" by (simp add: dict_get_def)
  moreover from k have "dict_get (metadata c) ''page'' (PInt 0) = PInt p"
    "dict_get (metadata c) ''has_table'' (PBool False) = PBool t"
    by (simp_all add: composite_key_def Let_def)
  ultimately have "fst (contract_key c) = s" "fst (snd (contract_key c)) = p"
    "fst (snd (snd (contract_key c))) = t"
    by (simp_all add: contract_key_def Let_def)
  with k show thesis by (rule that)
qed

lemma composite_key_section:
  assumes "plain_fields c" "has_source c" "plain_fields d" "has_source d"
  shows "composite_key c = composite_key d \<longleftrightarrow> same_section c d \<and> same_kind c d"
proof -
  from assms(1,2) obtain s f p t ocr where
    kc: "composite_key c = (PStr s, PStr f, PInt p, PBool t, PBool ocr)"
    and c: "fst (contract_key c) = s" "fst (snd (contract_key c)) = p" "fst (snd (snd (contract_key c))) = t"
    by (rule plain_key)
  from assms(3,4) obtain s' f' p' t' ocr' where
    kd: "composite_key d = (PStr s', PStr f', PInt p', PBool t', PBool ocr')"
    and d: "fst (contract_key d) = s'" "fst (snd (contract_key d)) = p'" "fst (snd (snd (contract_key d))) = t'"
    by (rule plain_key)
  from kc have fc: "dict_get (metadata c) ''file_type'' (PStr ''unknown'') = PStr f"
    "dict_get (metadata c) ''used_ocr'' (PBool False) = PBool ocr"
    by (simp_all add: composite_key_def Let_def)
  from kd have fd: "dict_get (metadata d) ''file_type'' (PStr ''unknown'') = PStr f'"
    "dict_get (metadata d) ''used_ocr'' (PBool False) = PBool ocr'"
    by (simp_all add: composite_key_def Let_def)
  show ?thesis
    unfolding kc kd same_section_def same_kind_def c d fc fd by auto
qed

lemma sorted_grouped:
  assumes "\<forall>c \<in> set chunks. plain_fields c \<and> has_source c"
    and "sorted (map contract_key chunks)"
    and "\<forall>c \<in> set chunks. \<forall>d \<in> set chunks. same_section c d \<longrightarrow> same_kind c d"
  shows "grouped (map (\<lambda>c. current_page_id (metadata c)) chunks)"
  using assms
proof (induction chunks)
  case Nil
  show ?case by simp
next
  case (Cons c chunks)
  let ?pid = "\<lambda>c. current_page_id (metadata c)"
  from Cons.prems have t: "grouped (map ?pid chunks)"
    by (intro Cons.IH) simp_all
  have n: "?pid c = hd (map ?pid chunks)" if "?pid c \<in> set (map ?pid chunks)"
  proof -
    from that obtain d where d: "d \<in> set chunks" "?pid d = ?pid c" by auto
    then obtain e rest where ch: "chunks = e # rest" by (cases chunks) auto
    from Cons.prems(1) d ch have pl: "plain_fields c" "has_source c" "plain_fields d" "has_source d"
      "plain_fields e" "has_source e" by auto
    from d(2) page_id_inj [OF pl(3) pl(1)] have "composite_key d = composite_key c" by simp
    with composite_key_section [OF pl(3,4,1,2)] have sd: "same_section d c" by simp
    from Cons.prems(2) ch have ce: "contract_key c \<le> contract_key e" by simp
    from Cons.prems(2) ch d(1) have ed: "contract_key e \<le> contract_key d" by auto
    from sd have "fst (contract_key c) = fst (contract_key d)"
      "fst (snd (contract_key c)) = fst (snd (contract_key d))"
      "fst (snd (snd (contract_key c))) = fst (snd (snd (contract_key d)))"
      by (simp_all add: same_section_def)
    from key_squeeze [OF ce ed this] have se: "same_section c e"
      by (simp add: same_section_def)
    with Cons.prems(3) ch have "same_kind c e" by simp
    with se composite_key_section [OF pl(1,2,5,6)] have "composite_key c = composite_key e" by simp
    with page_id_inj [OF pl(1) pl(5)] have "?pid c = ?pid e" by simp
    with ch show ?thesis by simp
  qed
  have "grouped (?pid c # map ?pid chunks)"
    unfolding grouped.simps using n t by blast
  then show ?case by (simp only: list.map)
qed

text \<open>
  C1, as stated: on every input sorted by \<open>(source, page, has_table, start_offset)\<close> whose
  chunks have pairwise different \<open>(source, page, has_table, used_ocr, start_offset)\<close>
  tuples, the assigned IDs are pairwise different. The sort key does not hold
  \<^verbatim>\<open>used_ocr\<close>, so a sorted input may put a chunk with the flag between two chunks of the
  same page without it; the counter restarts after the interruption and the first and
  the third chunk get one ID.
\<close>

theorem ids_distinct_counterexample:
  "sorted (map contract_key
     [\<lparr>page_content = ''first'', metadata = [(''source'', PStr ''a.docx''), (''page'', PInt 0), (''has_table'', PBool False), (''used_ocr'', PBool False), (''start'', PInt 0)]\<rparr>,
      \<lparr>page_content = ''second'', metadata = [(''source'', PStr ''a.docx''), (''page'', PInt 0), (''has_table'', PBool False), (''used_ocr'', PBool True), (''start'', PInt 5)]\<rparr>,
      \<lparr>page_content = ''third'', metadata = [(''source'', PStr ''a.docx''), (''page'', PInt 0), (''has_table'', PBool False), (''used_ocr'', PBool False), (''start'', PInt 10)]\<rparr>])
   \<and> distinct (map identity_tuple
     [\<lparr>page_content = ''first'', metadata = [(''source'', PStr ''a.docx''), (''page'', PInt 0), (''has_table'', PBool False), (''used_ocr'', PBool False), (''start'', PInt 0)]\<rparr>,
      \<lparr>page_content = ''second'', metadata = [(''source'', PStr ''a.docx''), (''page'', PInt 0), (''has_table'', PBool False), (''used_ocr'', PBool True), (''start'', PInt 5)]\<rparr>,
      \<lparr>page_content = ''third'', metadata = [(''source'', PStr ''a.docx''), (''page'', PInt 0), (''has_table'', PBool False), (''used_ocr'', PBool False), (''start'', PInt 10)]\<rparr>])
   \<and> \<not> distinct (map doc_id (calculate_chunk_ids
     [\<lparr>page_content = ''first'', metadata = [(''source'', PStr ''a.docx''), (''page'', PInt 0), (''has_table'', PBool False), (''used_ocr'', PBool False), (''start'', PInt 0)]\<rparr>,
      \<lparr>page_content = ''second'', metadata = [(''source'', PStr ''a.docx''), (''page'', PInt 0), (''has_table'', PBool False), (''used_ocr'', PBool True), (''start'', PInt 5)]\<rparr>,
      \<lparr>page_content = ''third'', metadata = [(''source'', PStr ''a.docx''), (''page'', PInt 0), (''has_table'', PBool False), (''used_ocr'', PBool False), (''start'', PInt 10)]\<rparr>]))
   \<and> map doc_id (calculate_chunk_ids
     [\<lparr>page_content = ''first'', metadata = [(''source'', PStr ''a.docx''), (''page'', PInt 0), (''has_table'', PBool False), (''used_ocr'', PBool False), (''start'', PInt 0)]\<rparr>,
      \<lparr>page_content = ''second'', metadata = [(''source'', PStr ''a.docx''), (''page'', PInt 0), (''has_table'', PBool False), (''used_ocr'', PBool True), (''start'', PInt 5)]\<rparr>,
      \<lparr>page_content = ''third'', metadata = [(''source'', PStr ''a.docx''), (''page'', PInt 0), (''has_table'', PBool False), (''used_ocr'', PBool False), (''start'', PInt 10)]\<rparr>])
     = [Some (PStr ''a.docx:unknown:page_0:chunk_0''), Some (PStr ''a.docx:unknown:page_0_ocr:chunk_0''),
        Some (PStr ''a.docx:unknown:page_0:chunk_0'')]"
  by code_simp

text \<open>
  C1, amended: for every input sequence of chunks that is sorted ascending by the key
  \<open>(source, page, has_table, start_offset)\<close> (absent values read as the zero of their type),
  in which every chunk has a source, the source is a string, the file type a string
  without a colon, the page an integer and the flags booleans, and in which two chunks
  that agree on \<open>(source, page, has_table)\<close> also agree on \<^verbatim>\<open>file_type\<close> and \<^verbatim>\<open>used_ocr\<close>,
  the IDs assigned by \<^verbatim>\<open>calculate_chunk_ids\<close> are pairwise distinct. The tuples of the
  chunks need not differ: chunks with equal tuples get successive counters.
\<close>

theorem ids_distinct:
  assumes "\<forall>c \<in> set chunks. plain_fields c \<and> has_source c"
    and "sorted (map contract_key chunks)"
    and "\<forall>c \<in> set chunks. \<forall>d \<in> set chunks. same_section c d \<longrightarrow> same_kind c d"
  shows "distinct (map doc_id (calculate_chunk_ids chunks))"
  using sorted_grouped [OF assms] by (rule grouped_ids_distinct)

text \<open>The statement of C1 at four chunks of two documents.\<close>

theorem ids_distinct_witness:
  "list_all (\<lambda>c. plain_fields c \<and> has_source c)
     [\<lparr>page_content = ''first'', metadata = [(''source'', PStr ''a.docx''), (''page'', PInt 0), (''has_table'', PBool False), (''file_type'', PStr ''docx''), (''start'', PInt 0)]\<rparr>,
      \<lparr>page_content = ''second'', metadata = [(''source'', PStr ''a.docx''), (''page'', PInt 0), (''has_table'', PBool False), (''file_type'', PStr ''docx''), (''start'', PInt 800)]\<rparr>,
      \<lparr>page_content = ''third'', metadata = [(''source'', PStr ''a.docx''), (''page'', PInt 1), (''has_table'', PBool True), (''file_type'', PStr ''docx''), (''start'', PInt 0)]\<rparr>,
      \<lparr>page_content = ''fourth'', metadata = [(''source'', PStr ''b.docx''), (''page'', PInt 0), (''has_table'', PBool False), (''file_type'', PStr ''docx''), (''start'', PInt 0)]\<rparr>]
   \<and> sorted (map contract_key
     [\<lparr>page_content = ''first'', metadata = [(''source'', PStr ''a.docx''), (''page'', PInt 0), (''has_table'', PBool False), (''file_type'', PStr ''docx''), (''start'', PInt 0)]\<rparr>,
      \<lparr>page_content = ''second'', metadata = [(''source'', PStr ''a.docx''), (''page'', PInt 0), (''has_table'', PBool False), (''file_type'', PStr ''docx''), (''start'', PInt 800)]\<rparr>,
      \<lparr>page_content = ''third'', metadata = [(''source'', PStr ''a.docx''), (''page'', PInt 1), (''has_table'', PBool True), (''file_type'', PStr ''docx''), (''start'', PInt 0)]\<rparr>,
      \<lparr>page_content = ''fourth'', metadata = [(''source'', PStr ''b.docx''), (''page'', PInt 0), (''has_table'', PBool False), (''file_type'', PStr ''docx''), (''start'', PInt 0)]\<rparr>])
   \<and> list_all (\<lambda>c. list_all (\<lambda>d. same_section c d \<longrightarrow> same_kind c d)
     [\<lparr>page_content = ''first'', metadata = [(''source'', PStr ''a.docx''), (''page'', PInt 0), (''has_table'', PBool False), (''file_type'', PStr ''docx''), (''start'', PInt 0)]\<rparr>,
      \<lparr>page_content = ''second'', metadata = [(''source'', PStr ''a.docx''), (''page'', PInt 0), (''has_table'', PBool False), (''file_type'', PStr ''docx''), (''start'', PInt 800)]\<rparr>,
      \<lparr>page_content = ''third'', metadata = [(''source'', PStr ''a.docx''), (''page'', PInt 1), (''has_table'', PBool True), (''file_type'', PStr ''docx''), (''start'', PInt 0)]\<rparr>,
      \<lparr>page_content = ''fourth'', metadata = [(''source'', PStr ''b.docx''), (''page'', PInt 0), (''has_table'', PBool False), (''file_type'', PStr ''docx''), (''start'', PInt 0)]\<rparr>])
     [\<lparr>page_content = ''first'', metadata = [(''source'', PStr ''a.docx''), (''page'', PInt 0), (''has_table'', PBool False), (''file_type'', PStr ''docx''), (''start'', PInt 0)]\<rparr>,
      \<lparr>page_content = ''second'', metadata = [(''source'', PStr ''a.docx''), (''page'', PInt 0), (''has_table'', PBool False), (''file_type'', PStr ''docx''), (''start'', PInt 800)]\<rparr>,
      \<lparr>page_content = ''third'', metadata = [(''source'', PStr ''a.docx''), (''page'', PInt 1), (''has_table'', PBool True), (''file_type'', PStr ''docx''), (''start'', PInt 0)]\<rparr>,
      \<lparr>page_content = ''fourth'', metadata = [(''source'', PStr ''b.docx''), (''page'', PInt 0), (''has_table'', PBool False), (''file_type'', PStr ''docx''), (''start'', PInt 0)]\<rparr>]
   \<and> distinct (map doc_id (calculate_chunk_ids
     [\<lparr>page_content = ''first'', metadata = [(''source'', PStr ''a.docx''), (''page'', PInt 0), (''has_table'', PBool False), (''file_type'', PStr ''docx''), (''start'', PInt 0)]\<rparr>,
      \<lparr>page_content = ''second'', metadata = [(''source'', PStr ''a.docx''), (''page'', PInt 0), (''has_table'', PBool False), (''file_type'', PStr ''docx''), (''start'', PInt 800)]\<rparr>,
      \<lparr>page_content = ''third'', metadata = [(''source'', PStr ''a.docx''), (''page'', PInt 1), (''has_table'', PBool True), (''file_type'', PStr ''docx''), (''start'', PInt 0)]\<rparr>,
      \<lparr>page_content = ''fourth'', metadata = [(''source'', PStr ''b.docx''), (''page'', PInt 0), (''has_table'', PBool False), (''file_type'', PStr ''docx''), (''start'', PInt 0)]\<rparr>]))"
proof -
  let ?cs = "[\<lparr>page_content = ''first'', metadata = [(''source'', PStr ''a.docx''), (''page'', PInt 0), (''has_table'', PBool False), (''file_type'', PStr ''docx''), (''start'', PInt 0)]\<rparr>,
      \<lparr>page_content = ''second'', metadata = [(''source'', PStr ''a.docx''), (''page'', PInt 0), (''has_table'', PBool False), (''file_type'', PStr ''docx''), (''start'', PInt 800)]\<rparr>,
      \<lparr>page_content = ''third'', metadata = [(''source'', PStr ''a.docx''), (''page'', PInt 1), (''has_table'', PBool True), (''file_type'', PStr ''docx''), (''start'', PInt 0)]\<rparr>,
      \<lparr>page_content = ''fourth'', metadata = [(''source'', PStr ''b.docx''), (''page'', PInt 0), (''has_table'', PBool False), (''file_type'', PStr ''docx''), (''start'', PInt 0)]\<rparr>]"
  have a: "list_all (\<lambda>c. plain_fields c \<and> has_source c) ?cs" by code_simp
  have b: "sorted (map contract_key ?cs)" by code_simp
  have c: "list_all (\<lambda>c. list_all (\<lambda>d. same_section c d \<longrightarrow> same_kind c d) ?cs) ?cs"
    by code_simp
  from a have a': "\<forall>c \<in> set ?cs. plain_fields c \<and> has_source c"
    by (simp only: list_all_iff)
  from c have c': "\<forall>c \<in> set ?cs. \<forall>d \<in> set ?cs. same_section c d \<longrightarrow> same_kind c d"
    by (simp only: list_all_iff)
  from ids_distinct [OF a' b c'] a b c show ?thesis by blast
qed

end
